theory Spec2Isabelle
  imports Main
begin

section \<open>The abstract syntax tree (src/ast.ts)\<close>

text \<open>
  Every class of \<^verbatim>\<open>ast.ts\<close> is one constructor. A node is a JavaScript object, and
  the code observes object identity in two places: \<^verbatim>\<open>Call.equals\<close> compares
  arguments with \<^verbatim>\<open>===\<close>, and the frame analysis keys its \<^verbatim>\<open>idMap\<close> by node.
  The first field \<open>'r\<close> of every constructor is therefore the identity of the object
  (its reference); two nodes built by two \<^verbatim>\<open>new\<close> expressions carry two different
  references. The remaining fields are the fields of the class, in the order of its
  constructor. Numeric literals are integers.
\<close>

datatype 'r AST =
    Number 'r int
  | Id_node 'r string
  | Not_node 'r "'r AST"
  | Equal 'r "'r AST" "'r AST"
  | NotEqual 'r "'r AST" "'r AST"
  | Add 'r "'r AST" "'r AST"
  | Subtract 'r "'r AST" "'r AST"
  | Multiply 'r "'r AST" "'r AST"
  | Divide 'r "'r AST" "'r AST"
  | Call 'r string "'r AST list"
  | Return 'r "'r AST"
  | Block 'r "'r AST list"
  | If_node 'r "'r AST" "'r AST" "'r AST"
  | Function 'r string "string list" "'r AST"
  | Var 'r string "'r AST"
  | Assign 'r string "'r AST"
  | While 'r "'r AST" "'r AST"
  | Module 'r "'r AST list"

text \<open>The reference of a node; \<^verbatim>\<open>a === b\<close> on two objects compares references.\<close>

fun ref_of :: "'r AST \<Rightarrow> 'r" where
  "ref_of (Number r v) = r"
| "ref_of (Id_node r x) = r"
| "ref_of (Not_node r t) = r"
| "ref_of (Equal r a b) = r"
| "ref_of (NotEqual r a b) = r"
| "ref_of (Add r a b) = r"
| "ref_of (Subtract r a b) = r"
| "ref_of (Multiply r a b) = r"
| "ref_of (Divide r a b) = r"
| "ref_of (Call r c as) = r"
| "ref_of (Return r t) = r"
| "ref_of (Block r ss) = r"
| "ref_of (If_node r c t e) = r"
| "ref_of (Function r n ps b) = r"
| "ref_of (Var r n v) = r"
| "ref_of (Assign r n v) = r"
| "ref_of (While r c b) = r"
| "ref_of (Module r fs) = r"

definition same_object :: "'r AST \<Rightarrow> 'r AST \<Rightarrow> bool" where
  "same_object a b = (ref_of a = ref_of b)"

text \<open>
  \<^verbatim>\<open>xs.every((x, i) => x === ys[i])\<close>, called only after the lengths were found
  equal. An index past the end of \<^verbatim>\<open>ys\<close> reads \<^verbatim>\<open>undefined\<close>, which is identical to no
  object.
\<close>

fun every_same :: "'r AST list \<Rightarrow> 'r AST list \<Rightarrow> bool" where
  "every_same [] ys = True"
| "every_same (x # xs) [] = False"
| "every_same (x # xs) (y # ys) = (same_object x y \<and> every_same xs ys)"

text \<open>
  The \<^verbatim>\<open>equals\<close> methods. \<open>equals a other\<close> is \<^verbatim>\<open>a.equals(other)\<close>: the equation is
  chosen by the class of the receiver, the \<open>case\<close> is the \<^verbatim>\<open>instanceof\<close> test on the
  argument. \<open>every_equals\<close> is \<^verbatim>\<open>xs.every((x, i) => x.equals(ys[i]))\<close>; on
  \<^verbatim>\<open>undefined\<close> every \<^verbatim>\<open>instanceof\<close> test is false.
\<close>

fun equals :: "'r AST \<Rightarrow> 'r AST \<Rightarrow> bool"
  and every_equals :: "'r AST list \<Rightarrow> 'r AST list \<Rightarrow> bool" where
  "equals (Number r v) other =
     (case other of Number r' v' \<Rightarrow> v = v' | _ \<Rightarrow> False)"
| "equals (Id_node r x) other =
     (case other of Id_node r' x' \<Rightarrow> x = x' | _ \<Rightarrow> False)"
| "equals (Not_node r t) other =
     (case other of Not_node r' t' \<Rightarrow> equals t t' | _ \<Rightarrow> False)"
| "equals (Equal r a b) other =
     (case other of Equal r' a' b' \<Rightarrow> equals a a' \<and> equals b b' | _ \<Rightarrow> False)"
| "equals (NotEqual r a b) other =
     (case other of NotEqual r' a' b' \<Rightarrow> equals a a' \<and> equals b b' | _ \<Rightarrow> False)"
| "equals (Add r a b) other =
     (case other of Add r' a' b' \<Rightarrow> equals a a' \<and> equals b b' | _ \<Rightarrow> False)"
| "equals (Subtract r a b) other =
     (case other of Subtract r' a' b' \<Rightarrow> equals a a' \<and> equals b b' | _ \<Rightarrow> False)"
| "equals (Multiply r a b) other =
     (case other of Multiply r' a' b' \<Rightarrow> equals a a' \<and> equals b b' | _ \<Rightarrow> False)"
| "equals (Divide r a b) other =
     (case other of Divide r' a' b' \<Rightarrow> equals a a' \<and> equals b b' | _ \<Rightarrow> False)"
| "equals (Call r callee args) other =
     (case other of
        Call r' callee' args' \<Rightarrow>
          callee = callee' \<and> length args = length args' \<and> every_same args args'
      | _ \<Rightarrow> False)"
| "equals (Return r t) other =
     (case other of Return r' t' \<Rightarrow> equals t t' | _ \<Rightarrow> False)"
| "equals (Block r statements) other =
     (case other of
        Block r' statements' \<Rightarrow>
          length statements = length statements' \<and> every_equals statements statements'
      | _ \<Rightarrow> False)"
| "equals (If_node r c t e) other =
     (case other of
        If_node r' c' t' e' \<Rightarrow> equals c c' \<and> equals t t' \<and> equals e e'
      | _ \<Rightarrow> False)"
| "equals (Function r name parameters body) other =
     (case other of
        Function r' name' parameters' body' \<Rightarrow>
          name = name' \<and> length parameters = length parameters' \<and>
          parameters = parameters' \<and> equals body body'
      | _ \<Rightarrow> False)"
| "equals (Var r name v) other =
     (case other of Var r' name' v' \<Rightarrow> name = name' \<and> equals v v' | _ \<Rightarrow> False)"
| "equals (Assign r name v) other =
     (case other of Assign r' name' v' \<Rightarrow> name = name' \<and> equals v v' | _ \<Rightarrow> False)"
| "equals (While r c b) other =
     (case other of While r' c' b' \<Rightarrow> equals c c' \<and> equals b b' | _ \<Rightarrow> False)"
| "equals (Module r functions) other =
     (case other of
        Module r' functions' \<Rightarrow>
          length functions = length functions' \<and> every_equals functions functions'
      | _ \<Rightarrow> False)"
| "every_equals [] ys = True"
| "every_equals (x # xs) [] = False"
| "every_equals (x # xs) (y # ys) = (equals x y \<and> every_equals xs ys)"

text \<open>The shape of a tree: the tree with the identities of its objects forgotten.\<close>

definition shape :: "'r AST \<Rightarrow> unit AST" where
  "shape a = map_AST (\<lambda>_. ()) a"

section \<open>Errors\<close>

text \<open>
  A thrown \<^verbatim>\<open>Error(message)\<close> is \<open>Inl (Error message)\<close>. Reading a property of
  \<^verbatim>\<open>undefined\<close> (a non-null assertion \<^verbatim>\<open>x!\<close> on a field that is not set) throws a
  JavaScript \<^verbatim>\<open>TypeError\<close>.
\<close>

datatype error = Error string | TypeError

definition and_then :: "error + 'a \<Rightarrow> ('a \<Rightarrow> error + 'b) \<Rightarrow> error + 'b" where
  "and_then m f = (case m of Inl e \<Rightarrow> Inl e | Inr x \<Rightarrow> f x)"

section \<open>Frame analysis (function_frame.ts, the first 163 lines of src/unnamed/part\_000)\<close>

record 'r FunctionFrame =
  idMap :: "'r \<rightharpoonup> nat"
  nameMap :: "string \<rightharpoonup> nat"
  frameSize :: nat

definition new_FunctionFrame :: "'r FunctionFrame" where
  "new_FunctionFrame = \<lparr>idMap = Map.empty, nameMap = Map.empty, frameSize = 0\<rparr>"

definition addArgument :: "string \<Rightarrow> 'r FunctionFrame \<Rightarrow> error + 'r FunctionFrame" where
  "addArgument name fr =
     (if nameMap fr name \<noteq> None
      then Inl (Error (''Duplicate definition of argument '' @ name))
      else Inr (fr\<lparr>nameMap := (nameMap fr)(name \<mapsto> frameSize fr),
                    frameSize := frameSize fr + 1\<rparr>))"

text \<open>
  \<^verbatim>\<open>v.name\<close> (\<^verbatim>\<open>v.value\<close> for an \<^verbatim>\<open>Id\<close>). The callers pass an \<^verbatim>\<open>Id\<close>, an \<^verbatim>\<open>Assign\<close> or a
  \<^verbatim>\<open>Var\<close>; a class without the field reads \<^verbatim>\<open>undefined\<close>, printed as such.
\<close>

fun name_of :: "'r AST \<Rightarrow> string" where
  "name_of (Id_node r x) = x"
| "name_of (Var r x v) = x"
| "name_of (Assign r x v) = x"
| "name_of (Function r x ps b) = x"
| "name_of _ = ''undefined''"

definition addLocal :: "'r AST \<Rightarrow> 'r FunctionFrame \<Rightarrow> error + 'r FunctionFrame" where
  "addLocal v fr =
     Inr (fr\<lparr>nameMap := (nameMap fr)(name_of v \<mapsto> frameSize fr),
              idMap := (idMap fr)(ref_of v \<mapsto> frameSize fr),
              frameSize := frameSize fr + 1\<rparr>)"

definition mapLocal :: "'r AST \<Rightarrow> 'r FunctionFrame \<Rightarrow> error + 'r FunctionFrame" where
  "mapLocal v fr =
     (case nameMap fr (name_of v) of
        None \<Rightarrow> Inl (Error (''Undefined variable '' @ name_of v))
      | Some i \<Rightarrow> Inr (fr\<lparr>idMap := (idMap fr)(ref_of v \<mapsto> i)\<rparr>))"

definition getOffset :: "'r FunctionFrame \<Rightarrow> 'r AST \<Rightarrow> nat option" where
  "getOffset fr node = idMap fr (ref_of node)"

text \<open>
  The visitor \<^verbatim>\<open>FunctionFrameAnalysis\<close>. Its two fields are the state; a frame stored
  in \<^verbatim>\<open>functionFrames\<close> is the value of \<^verbatim>\<open>#currentFrame\<close> at that moment, which is
  \<^verbatim>\<open>undefined\<close> (\<open>None\<close>) when a nested function has reset it.
\<close>

record 'r FunctionFrameAnalysis =
  currentFrame :: "'r FunctionFrame option"
  functionFrames :: "string \<rightharpoonup> 'r FunctionFrame option"

text \<open>\<^verbatim>\<open>this.#currentFrame!.m(...)\<close> for a method \<open>m\<close> of the frame.\<close>

definition on_currentFrame ::
  "('r FunctionFrame \<Rightarrow> error + 'r FunctionFrame) \<Rightarrow>
   'r FunctionFrameAnalysis \<Rightarrow> error + 'r FunctionFrameAnalysis" where
  "on_currentFrame m s =
     (case currentFrame s of
        None \<Rightarrow> Inl TypeError
      | Some fr \<Rightarrow> and_then (m fr) (\<lambda>fr'. Inr (s\<lparr>currentFrame := Some fr'\<rparr>)))"

text \<open>\<^verbatim>\<open>node.parameters.forEach((value, _) => this.#currentFrame!.addArgument(value))\<close>\<close>

fun addArguments ::
  "string list \<Rightarrow> 'r FunctionFrameAnalysis \<Rightarrow> error + 'r FunctionFrameAnalysis" where
  "addArguments [] s = Inr s"
| "addArguments (p # ps) s =
     and_then (on_currentFrame (addArgument p) s) (\<lambda>s'. addArguments ps s')"

text \<open>
  \<open>analysis_visit node s\<close> is \<^verbatim>\<open>node.visit(analysis)\<close> in state \<open>s\<close>: one equation per
  \<^verbatim>\<open>visit...\<close> method. \<open>analysis_forEach\<close> is \<^verbatim>\<open>nodes.forEach((n, _) => n.visit(this))\<close>.
  \<^verbatim>\<open>visitIf\<close> visits the conditional, then the alternative, then the consequence.
\<close>

fun analysis_visit ::
    "'r AST \<Rightarrow> 'r FunctionFrameAnalysis \<Rightarrow> error + 'r FunctionFrameAnalysis"
  and analysis_forEach ::
    "'r AST list \<Rightarrow> 'r FunctionFrameAnalysis \<Rightarrow> error + 'r FunctionFrameAnalysis" where
  "analysis_visit (Number r v) s = Inr s"
| "analysis_visit (Id_node r x) s = on_currentFrame (mapLocal (Id_node r x)) s"
| "analysis_visit (Not_node r t) s = analysis_visit t s"
| "analysis_visit (Equal r a b) s =
     and_then (analysis_visit a s) (\<lambda>s'. analysis_visit b s')"
| "analysis_visit (NotEqual r a b) s =
     and_then (analysis_visit a s) (\<lambda>s'. analysis_visit b s')"
| "analysis_visit (Add r a b) s =
     and_then (analysis_visit a s) (\<lambda>s'. analysis_visit b s')"
| "analysis_visit (Subtract r a b) s =
     and_then (analysis_visit a s) (\<lambda>s'. analysis_visit b s')"
| "analysis_visit (Multiply r a b) s =
     and_then (analysis_visit a s) (\<lambda>s'. analysis_visit b s')"
| "analysis_visit (Divide r a b) s =
     and_then (analysis_visit a s) (\<lambda>s'. analysis_visit b s')"
| "analysis_visit (Call r callee args) s = analysis_forEach args s"
| "analysis_visit (Return r t) s = analysis_visit t s"
| "analysis_visit (Block r statements) s = analysis_forEach statements s"
| "analysis_visit (If_node r conditional consequence alternative) s =
     and_then (analysis_visit conditional s) (\<lambda>s1.
     and_then (analysis_visit alternative s1) (\<lambda>s2.
     analysis_visit consequence s2))"
| "analysis_visit (Function r name parameters body) s =
     (if functionFrames s name \<noteq> None
      then Inl (Error (''Redefinition of function '' @ name))
      else
        and_then (addArguments parameters (s\<lparr>currentFrame := Some new_FunctionFrame\<rparr>)) (\<lambda>s1.
        and_then (analysis_visit body s1) (\<lambda>s2.
        Inr (s2\<lparr>functionFrames := (functionFrames s2)(name \<mapsto> currentFrame s2),
                 currentFrame := None\<rparr>))))"
| "analysis_visit (Var r name v) s =
     and_then (analysis_visit v s) (\<lambda>s'. on_currentFrame (addLocal (Var r name v)) s')"
| "analysis_visit (Assign r name v) s =
     and_then (analysis_visit v s) (\<lambda>s'. on_currentFrame (mapLocal (Assign r name v)) s')"
| "analysis_visit (While r conditional body) s =
     and_then (analysis_visit conditional s) (\<lambda>s'. analysis_visit body s')"
| "analysis_visit (Module r functions) s = analysis_forEach functions s"
| "analysis_forEach [] s = Inr s"
| "analysis_forEach (n # ns) s =
     and_then (analysis_visit n s) (\<lambda>s'. analysis_forEach ns s')"

definition new_FunctionFrameAnalysis :: "'r FunctionFrameAnalysis" where
  "new_FunctionFrameAnalysis = \<lparr>currentFrame = None, functionFrames = Map.empty\<rparr>"

definition analyzeFrames :: "'r AST \<Rightarrow> error + (string \<rightharpoonup> 'r FunctionFrame option)" where
  "analyzeFrames ast =
     and_then (analysis_visit ast new_FunctionFrameAnalysis) (\<lambda>s. Inr (functionFrames s))"


section \<open>Notions used to state the properties of the frame analysis\<close>

text \<open>
  Nothing in this section is code of the repository: these are the words the
  statements below are written in.

  \<open>subnodes n\<close> lists \<open>n\<close> and every node below it. \<open>no_functions n\<close> says that
  no \<^verbatim>\<open>Function\<close> and no \<^verbatim>\<open>Module\<close> occurs in \<open>n\<close>: \<open>n\<close> is a statement or an
  expression, as the grammar builds the body of a function.
\<close>

fun subnodes :: "'r AST \<Rightarrow> 'r AST list" where
  "subnodes (Number r v) = [Number r v]"
| "subnodes (Id_node r x) = [Id_node r x]"
| "subnodes (Not_node r t) = Not_node r t # subnodes t"
| "subnodes (Equal r a b) = Equal r a b # subnodes a @ subnodes b"
| "subnodes (NotEqual r a b) = NotEqual r a b # subnodes a @ subnodes b"
| "subnodes (Add r a b) = Add r a b # subnodes a @ subnodes b"
| "subnodes (Subtract r a b) = Subtract r a b # subnodes a @ subnodes b"
| "subnodes (Multiply r a b) = Multiply r a b # subnodes a @ subnodes b"
| "subnodes (Divide r a b) = Divide r a b # subnodes a @ subnodes b"
| "subnodes (Call r c args) = Call r c args # concat (map subnodes args)"
| "subnodes (Return r t) = Return r t # subnodes t"
| "subnodes (Block r ss) = Block r ss # concat (map subnodes ss)"
| "subnodes (If_node r c t e) = If_node r c t e # subnodes c @ subnodes t @ subnodes e"
| "subnodes (Function r n ps b) = Function r n ps b # subnodes b"
| "subnodes (Var r n v) = Var r n v # subnodes v"
| "subnodes (Assign r n v) = Assign r n v # subnodes v"
| "subnodes (While r c b) = While r c b # subnodes c @ subnodes b"
| "subnodes (Module r fs) = Module r fs # concat (map subnodes fs)"

fun is_Function :: "'r AST \<Rightarrow> bool" where
  "is_Function (Function r n ps b) = True"
| "is_Function (Module r fs) = True"
| "is_Function _ = False"

definition no_functions :: "'r AST \<Rightarrow> bool" where
  "no_functions n = list_all (\<lambda>m. \<not> is_Function m) (subnodes n)"

text \<open>
  The nodes the analysis gives a slot to: a \<^verbatim>\<open>Var\<close> declares, an \<^verbatim>\<open>Id\<close> or an
  \<^verbatim>\<open>Assign\<close> refers. \<open>declared_in\<close> are the names declared among some nodes,
  \<open>keys_in\<close> the identities of the nodes that become keys of \<^verbatim>\<open>idMap\<close>, and
  \<open>references_in x\<close> the identities of the nodes that refer to \<open>x\<close>.
\<close>

fun is_Var :: "'r AST \<Rightarrow> bool" where
  "is_Var (Var r x v) = True"
| "is_Var _ = False"

fun is_reference :: "'r AST \<Rightarrow> bool" where
  "is_reference (Id_node r x) = True"
| "is_reference (Assign r x v) = True"
| "is_reference _ = False"

definition declared_in :: "'r AST list \<Rightarrow> string list" where
  "declared_in nodes = map name_of (filter is_Var nodes)"

definition keys_in :: "'r AST list \<Rightarrow> 'r list" where
  "keys_in nodes = map ref_of (filter (\<lambda>m. is_Var m \<or> is_reference m) nodes)"

definition references_in :: "string \<Rightarrow> 'r AST list \<Rightarrow> 'r list" where
  "references_in x nodes = map ref_of (filter (\<lambda>m. is_reference m \<and> name_of m = x) nodes)"

definition subnodes_each :: "'r AST list \<Rightarrow> 'r AST list" where
  "subnodes_each ns = concat (map subnodes ns)"

text \<open>
  The walk of the analysis with the slots forgotten: \<open>unresolved n B\<close> walks \<open>n\<close> in
  the order of \<^verbatim>\<open>FunctionFrameAnalysis\<close>, starting with the set \<open>B\<close> of bound names. It
  answers \<open>Inl x\<close> at the first \<^verbatim>\<open>Id\<close> or \<^verbatim>\<open>Assign\<close> whose name \<open>x\<close> is not bound when
  the walk reaches it, and \<open>Inr B'\<close>, the names bound at the end, when there is none.
\<close>

fun unresolved :: "'r AST \<Rightarrow> string set \<Rightarrow> string + string set"
  and unresolved_each :: "'r AST list \<Rightarrow> string set \<Rightarrow> string + string set" where
  "unresolved (Number r v) B = Inr B"
| "unresolved (Id_node r x) B = (if x \<in> B then Inr B else Inl x)"
| "unresolved (Not_node r t) B = unresolved t B"
| "unresolved (Equal r a b) B = (case unresolved a B of Inl x \<Rightarrow> Inl x | Inr B' \<Rightarrow> unresolved b B')"
| "unresolved (NotEqual r a b) B = (case unresolved a B of Inl x \<Rightarrow> Inl x | Inr B' \<Rightarrow> unresolved b B')"
| "unresolved (Add r a b) B = (case unresolved a B of Inl x \<Rightarrow> Inl x | Inr B' \<Rightarrow> unresolved b B')"
| "unresolved (Subtract r a b) B = (case unresolved a B of Inl x \<Rightarrow> Inl x | Inr B' \<Rightarrow> unresolved b B')"
| "unresolved (Multiply r a b) B = (case unresolved a B of Inl x \<Rightarrow> Inl x | Inr B' \<Rightarrow> unresolved b B')"
| "unresolved (Divide r a b) B = (case unresolved a B of Inl x \<Rightarrow> Inl x | Inr B' \<Rightarrow> unresolved b B')"
| "unresolved (Call r c args) B = unresolved_each args B"
| "unresolved (Return r t) B = unresolved t B"
| "unresolved (Block r ss) B = unresolved_each ss B"
| "unresolved (If_node r c t e) B =
     (case unresolved c B of Inl x \<Rightarrow> Inl x | Inr B1 \<Rightarrow>
     (case unresolved e B1 of Inl x \<Rightarrow> Inl x | Inr B2 \<Rightarrow> unresolved t B2))"
| "unresolved (Function r n ps b) B = Inr B"
| "unresolved (Var r x v) B = (case unresolved v B of Inl y \<Rightarrow> Inl y | Inr B' \<Rightarrow> Inr (insert x B'))"
| "unresolved (Assign r x v) B =
     (case unresolved v B of Inl y \<Rightarrow> Inl y | Inr B' \<Rightarrow> if x \<in> B' then Inr B' else Inl x)"
| "unresolved (While r c b) B = (case unresolved c B of Inl x \<Rightarrow> Inl x | Inr B' \<Rightarrow> unresolved b B')"
| "unresolved (Module r fs) B = Inr B"
| "unresolved_each [] B = Inr B"
| "unresolved_each (n # ns) B =
     (case unresolved n B of Inl x \<Rightarrow> Inl x | Inr B' \<Rightarrow> unresolved_each ns B')"

text \<open>
  The walk of a statement or expression as it acts on the current frame alone;
  lemma \<open>analysis_visit_frame\<close> shows that \<open>analysis_visit\<close> is this walk applied to
  \<^verbatim>\<open>#currentFrame\<close> (the two equations for \<^verbatim>\<open>Function\<close> and \<^verbatim>\<open>Module\<close> are never
  used).
\<close>

fun frame_visit :: "'r AST \<Rightarrow> 'r FunctionFrame \<Rightarrow> error + 'r FunctionFrame"
  and frame_forEach :: "'r AST list \<Rightarrow> 'r FunctionFrame \<Rightarrow> error + 'r FunctionFrame" where
  "frame_visit (Number r v) fr = Inr fr"
| "frame_visit (Id_node r x) fr = mapLocal (Id_node r x) fr"
| "frame_visit (Not_node r t) fr = frame_visit t fr"
| "frame_visit (Equal r a b) fr = and_then (frame_visit a fr) (\<lambda>fr'. frame_visit b fr')"
| "frame_visit (NotEqual r a b) fr = and_then (frame_visit a fr) (\<lambda>fr'. frame_visit b fr')"
| "frame_visit (Add r a b) fr = and_then (frame_visit a fr) (\<lambda>fr'. frame_visit b fr')"
| "frame_visit (Subtract r a b) fr = and_then (frame_visit a fr) (\<lambda>fr'. frame_visit b fr')"
| "frame_visit (Multiply r a b) fr = and_then (frame_visit a fr) (\<lambda>fr'. frame_visit b fr')"
| "frame_visit (Divide r a b) fr = and_then (frame_visit a fr) (\<lambda>fr'. frame_visit b fr')"
| "frame_visit (Call r callee args) fr = frame_forEach args fr"
| "frame_visit (Return r t) fr = frame_visit t fr"
| "frame_visit (Block r statements) fr = frame_forEach statements fr"
| "frame_visit (If_node r conditional consequence alternative) fr =
     and_then (frame_visit conditional fr) (\<lambda>fr1.
     and_then (frame_visit alternative fr1) (\<lambda>fr2.
     frame_visit consequence fr2))"
| "frame_visit (Function r name parameters body) fr = Inr fr"
| "frame_visit (Var r name v) fr =
     and_then (frame_visit v fr) (\<lambda>fr'. addLocal (Var r name v) fr')"
| "frame_visit (Assign r name v) fr =
     and_then (frame_visit v fr) (\<lambda>fr'. mapLocal (Assign r name v) fr')"
| "frame_visit (While r conditional body) fr =
     and_then (frame_visit conditional fr) (\<lambda>fr'. frame_visit body fr')"
| "frame_visit (Module r functions) fr = Inr fr"
| "frame_forEach [] fr = Inr fr"
| "frame_forEach (n # ns) fr = and_then (frame_visit n fr) (\<lambda>fr'. frame_forEach ns fr')"

text \<open>
  \<open>keeps x k f nodes\<close>: when \<open>x\<close> is bound to slot \<open>k\<close>, none of \<open>nodes\<close> declares
  \<open>x\<close> again and no two of them are one object, running \<open>f\<close> leaves \<open>x\<close> bound to
  \<open>k\<close>, resolves every reference to \<open>x\<close> among \<open>nodes\<close> to \<open>k\<close>, and leaves alone
  what other nodes were resolved to \<open>k\<close> before.
\<close>

definition keeps ::
  "string \<Rightarrow> nat \<Rightarrow> ('r FunctionFrame \<Rightarrow> error + 'r FunctionFrame) \<Rightarrow> 'r AST list \<Rightarrow> bool" where
  "keeps x k f nodes =
     (\<forall>fr fr'. f fr = Inr fr' \<and> nameMap fr x = Some k \<and> x \<notin> set (declared_in nodes) \<and>
        distinct (keys_in nodes) \<longrightarrow>
        nameMap fr' x = Some k \<and>
        (\<forall>q. q \<in> set (references_in x nodes) \<or> (q \<notin> set (keys_in nodes) \<and> idMap fr q = Some k)
           \<longrightarrow> idMap fr' q = Some k))"


text \<open>
  \<open>slots_below fr\<close>: every slot the frame has handed out, to a name or to a node, is
  below \<^verbatim>\<open>frameSize\<close>; so \<^verbatim>\<open>frameSize\<close> itself is the next unused slot.
\<close>

definition slots_below :: "'r FunctionFrame \<Rightarrow> bool" where
  "slots_below fr =
     (\<forall>k. k \<in> ran (nameMap fr) \<or> k \<in> ran (idMap fr) \<longrightarrow> k < frameSize fr)"


section \<open>When the analysis of a module fails, in words of names alone\<close>

text \<open>
  Nothing in this section is code of the repository. The three errors of the analysis
  and their messages:
\<close>

datatype analysis_error =
    Undefined_variable string
  | Redefinition_of_function string
  | Duplicate_definition_of_argument string

fun message :: "analysis_error \<Rightarrow> string" where
  "message (Undefined_variable x) = ''Undefined variable '' @ x"
| "message (Redefinition_of_function f) = ''Redefinition of function '' @ f"
| "message (Duplicate_definition_of_argument p) = ''Duplicate definition of argument '' @ p"

text \<open>The first parameter that repeats one seen before it, if any.\<close>

fun duplicate_argument :: "string set \<Rightarrow> string list \<Rightarrow> string option" where
  "duplicate_argument seen [] = None"
| "duplicate_argument seen (p # ps) =
     (if p \<in> seen then Some p else duplicate_argument (insert p seen) ps)"

fun parameters_of :: "'r AST \<Rightarrow> string list" where
  "parameters_of (Function r name parameters body) = parameters"
| "parameters_of _ = []"

fun body_of :: "'r AST \<Rightarrow> 'r AST list" where
  "body_of (Function r name parameters body) = [body]"
| "body_of _ = []"

text \<open>
  The error of one function declaration, \<open>defined\<close> being the names of the functions
  before it: its name is one of them; or two of its parameters share a name; or its body
  names, in an \<^verbatim>\<open>Id\<close> or an \<^verbatim>\<open>Assign\<close>, a variable that has no binding when the walk
  reaches it. \<open>module_error\<close> is the error of the first function that has one.
\<close>

definition function_error :: "string set \<Rightarrow> 'r AST \<Rightarrow> analysis_error option" where
  "function_error defined f =
     (if name_of f \<in> defined then Some (Redefinition_of_function (name_of f))
      else case duplicate_argument {} (parameters_of f) of
        Some p \<Rightarrow> Some (Duplicate_definition_of_argument p)
      | None \<Rightarrow>
          (case unresolved_each (body_of f) (set (parameters_of f)) of
             Inl x \<Rightarrow> Some (Undefined_variable x)
           | Inr B \<Rightarrow> None))"

fun module_error :: "string set \<Rightarrow> 'r AST list \<Rightarrow> analysis_error option" where
  "module_error defined [] = None"
| "module_error defined (f # fs) =
     (case function_error defined f of
        Some e \<Rightarrow> Some e
      | None \<Rightarrow> module_error (insert (name_of f) defined) fs)"

text \<open>
  A module as the parser builds it: a \<^verbatim>\<open>Module\<close> of \<^verbatim>\<open>Function\<close>s, whose bodies hold
  no further \<^verbatim>\<open>Function\<close> or \<^verbatim>\<open>Module\<close>.
\<close>

fun function_declaration :: "'r AST \<Rightarrow> bool" where
  "function_declaration (Function r name parameters body) = no_functions body"
| "function_declaration _ = False"

fun well_formed_module :: "'r AST \<Rightarrow> bool" where
  "well_formed_module (Module r functions) = list_all function_declaration functions"
| "well_formed_module _ = False"


section \<open>Printed numbers and the console\<close>

text \<open>
  The numbers of the code are IEEE doubles. The model keeps the integers among them as
  integers, and the integer \<open>2 ^ 1024\<close> stands for \<^verbatim>\<open>Infinity\<close>. \<open>to_double\<close> is the double
  nearest to an integer that is not negative (a tie goes to the even mantissa, and what rounds to
  \<open>2 ^ 1024\<close> or more is \<^verbatim>\<open>Infinity\<close>); below \<open>2 ^ 53\<close> every such integer is a double.
\<close>

function bit_length :: "int \<Rightarrow> nat" where
  "bit_length n = (if n \<le> 0 then 0 else Suc (bit_length (n div 2)))"
  by pat_completeness auto
termination
  by (relation "measure nat") auto

declare bit_length.simps [simp del]

definition to_double :: "int \<Rightarrow> int" where
  "to_double v =
     (let b = bit_length v in
      if b \<le> 53 then v
      else
        (let shift = b - 53;
             q = v div 2 ^ shift;
             r = v mod 2 ^ shift;
             half = 2 ^ (shift - 1);
             m = (if half < r \<or> (r = half \<and> odd q) then q + 1 else q);
             d = m * 2 ^ shift
         in if 2 ^ 1024 \<le> d then 2 ^ 1024 else d))"

text \<open>
  \<open>show_nat\<close> and \<open>show_int\<close> are the text a template literal gives a number
  (\<^verbatim>\<open>Number::toString\<close>), \<open>number_text\<close> that of a number that is not negative.
  \<open>decimal\<close> writes all the digits, which is the text of a number below \<open>2 ^ 53\<close>. From
  there on the text has the fewest digits that still read back as the same double
  (\<open>shortest\<close>: the decimal nearest to the double among those of the fewest digits, found
  by trying 1, 2, ... digits), followed by zeros below \<open>10 ^ 21\<close> and in exponent form
  from \<open>10 ^ 21\<close> on.
\<close>

function decimal :: "int \<Rightarrow> string" where
  "decimal n =
     (if n < 10 then [''0123456789'' ! nat n]
      else decimal (n div 10) @ [''0123456789'' ! nat (n mod 10)])"
  by pat_completeness auto
termination
  by (relation "measure nat") auto

declare decimal.simps [simp del]

fun shortest_from :: "nat \<Rightarrow> nat \<Rightarrow> int \<Rightarrow> int" where
  "shortest_from 0 k d = d"
| "shortest_from (Suc fuel) k d =
     (let p = 10 ^ (length (decimal d) - k);
          lo = (d div p) * p;
          hi = lo + p
      in
        if to_double lo = d \<and> to_double hi = d then
          (if d - lo < hi - d then lo
           else if hi - d < d - lo then hi
           else if even (d div p) then lo else hi)
        else if to_double lo = d then lo
        else if to_double hi = d then hi
        else shortest_from fuel (k + 1) d)"

definition shortest :: "int \<Rightarrow> int" where
  "shortest d = shortest_from (length (decimal d)) 1 d"

definition exponent_form :: "int \<Rightarrow> string" where
  "exponent_form c =
     (let digits = decimal c;
          significant = rev (dropWhile (\<lambda>x. x = CHR ''0'') (rev digits))
      in (case significant of
            [] \<Rightarrow> []
          | x # xs \<Rightarrow> if xs = [] then [x] else x # ''.'' @ xs) @
         ''e+'' @ decimal (int (length digits) - 1))"

definition number_text :: "int \<Rightarrow> string" where
  "number_text n =
     (if n < 2 ^ 53 then decimal n
      else
        (let d = to_double n in
         if 2 ^ 1024 \<le> d then ''Infinity''
         else
           (let c = shortest d in
            if c < 10 ^ 21 then decimal c else exponent_form c)))"

definition show_int :: "int \<Rightarrow> string" where
  "show_int i = (if i < 0 then ''-'' @ number_text (- i) else number_text i)"

definition show_nat :: "nat \<Rightarrow> string" where
  "show_nat n = number_text (int n)"

text \<open>
  The two code generators print with \<^verbatim>\<open>console.log\<close>, one line per call. The lines
  are kept in order in \<open>console\<close>; \<open>tab\<close> is the character \<^verbatim>\<open>\t\<close>.
\<close>

abbreviation tab :: char where
  "tab \<equiv> CHR 0x09"

text \<open>
  \<open>Label_counter\<close> is the static \<^verbatim>\<open>Label.#counter\<close>; \<open>new_Label\<close> is \<^verbatim>\<open>new Label()\<close>, a
  label being its number.
\<close>

record Console =
  console :: "string list"
  Label_counter :: nat

definition emit :: "string \<Rightarrow> 'a Console_scheme \<Rightarrow> 'a Console_scheme" where
  "emit line st = st\<lparr>console := console st @ [line]\<rparr>"

definition new_Label :: "'a Console_scheme \<Rightarrow> nat \<times> 'a Console_scheme" where
  "new_Label st = (Label_counter st, st\<lparr>Label_counter := Label_counter st + 1\<rparr>)"

section \<open>Assembly code generator (codegen.ts)\<close>

text \<open>\<^verbatim>\<open>Label.toString\<close>, and the text of \<^verbatim>\<open>${this.#exitLabel}\<close>, which may be unset.\<close>

definition Label_toString :: "nat \<Rightarrow> string" where
  "Label_toString l = ''.L'' @ show_nat l"

fun exitLabel_text :: "nat option \<Rightarrow> string" where
  "exitLabel_text None = ''undefined''"
| "exitLabel_text (Some l) = Label_toString l"

record Emitter = Console +
  exitLabel :: "nat option"

record CodeGenerator = Emitter +
  locals :: "(string \<rightharpoonup> int) option"
  nextLocalOffset :: int

text \<open>
  \<^verbatim>\<open>node.parameters.forEach((parameter, i) => locals.set(parameter, 8 * i - 32))\<close>
\<close>

fun set_parameters :: "string list \<Rightarrow> nat \<Rightarrow> (string \<rightharpoonup> int) \<Rightarrow> (string \<rightharpoonup> int)" where
  "set_parameters [] i m = m"
| "set_parameters (p # ps) i m = set_parameters ps (i + 1) (m(p \<mapsto> 8 * int i - 32))"

definition setupEnvironment :: "string list \<Rightarrow> CodeGenerator \<Rightarrow> CodeGenerator" where
  "setupEnvironment parameters st =
     (let (l, st1) = new_Label (st\<lparr>locals := Some (set_parameters parameters 0 Map.empty),
                                    nextLocalOffset := - 40\<rparr>)
      in st1\<lparr>exitLabel := Some l\<rparr>)"

definition teardownEnvironment :: "CodeGenerator \<Rightarrow> CodeGenerator" where
  "teardownEnvironment st = st\<lparr>locals := None, nextLocalOffset := 0, exitLabel := None\<rparr>"

definition emitPrologue :: "'a Console_scheme \<Rightarrow> 'a Console_scheme" where
  "emitPrologue st =
     emit (tab # ''stp'' @ tab # ''x0, x1, [sp, #-16]!'')
     (emit (tab # ''stp'' @ tab # ''x2, x3, [sp, #-16]!'')
     (emit (tab # ''mov'' @ tab # ''x29, sp'')
     (emit (tab # ''stp'' @ tab # ''x29, x30, [sp, #-16]!'') st)))"

definition emitEpilogue :: "'a Emitter_scheme \<Rightarrow> 'a Emitter_scheme" where
  "emitEpilogue st =
     emit (tab # ''ret'')
     (emit (tab # ''ldp'' @ tab # ''x29, x30, [sp], #16'')
     (emit (tab # ''mov'' @ tab # ''sp, x29'')
     (emit (exitLabel_text (exitLabel st) @ '':'')
     (emit (tab # ''mov'' @ tab # ''x0, #0'') st))))"

text \<open>
  \<^verbatim>\<open>this.#locals!.get(name)\<close> followed by \<^verbatim>\<open>if (offset) ... else throw\<close>: the offset 0
  is falsy as \<^verbatim>\<open>undefined\<close> is.
\<close>

definition local_offset :: "string \<Rightarrow> CodeGenerator \<Rightarrow> error + int" where
  "local_offset name st =
     (case locals st of
        None \<Rightarrow> Inl TypeError
      | Some m \<Rightarrow>
          (case m name of
             None \<Rightarrow> Inl (Error (''Undefined variable: '' @ name))
           | Some offset \<Rightarrow>
               if offset \<noteq> 0 then Inr offset
               else Inl (Error (''Undefined variable: '' @ name))))"

text \<open>
  \<open>codegen_visit node st\<close> is \<^verbatim>\<open>node.visit(generator)\<close>, one equation per \<^verbatim>\<open>visit...\<close>
  method, \<^verbatim>\<open>prepareBinaryOp\<close> written out in the six binary operators;
  \<open>codegen_forEach\<close> is \<^verbatim>\<open>nodes.forEach((n) => n.visit(this))\<close>; \<open>codegen_args\<close> is
  the loop of \<^verbatim>\<open>visitCall\<close> over the arguments and their indices; \<open>codegen_functions\<close> is
  the loop of \<^verbatim>\<open>visitModule\<close>. A thrown error ends the walk: the lines printed before it
  are not part of the value.
\<close>

fun codegen_visit :: "'r AST \<Rightarrow> CodeGenerator \<Rightarrow> error + CodeGenerator"
  and codegen_forEach :: "'r AST list \<Rightarrow> CodeGenerator \<Rightarrow> error + CodeGenerator"
  and codegen_args :: "'r AST list \<Rightarrow> nat \<Rightarrow> CodeGenerator \<Rightarrow> error + CodeGenerator"
  and codegen_functions :: "'r AST list \<Rightarrow> CodeGenerator \<Rightarrow> error + CodeGenerator" where
  "codegen_visit (Number r v) st =
     Inr (emit (tab # ''ldr'' @ tab # ''x0, ='' @ show_int v) st)"
| "codegen_visit (Id_node r x) st =
     and_then (local_offset x st) (\<lambda>offset.
     Inr (emit (tab # ''ldr'' @ tab # ''x0, [x29, #'' @ show_int offset @ '']'') st))"
| "codegen_visit (Not_node r t) st =
     and_then (codegen_visit t st) (\<lambda>st1.
     Inr (emit (tab # ''cset'' @ tab # ''x0, ne'') (emit (tab # ''cmp'' @ tab # ''x0, #1'') st1)))"
| "codegen_visit (Equal r a b) st =
     and_then (codegen_visit a st) (\<lambda>st0.
     and_then (codegen_visit b (emit (tab # ''str'' @ tab # ''x0, [sp, #-16]!'') st0)) (\<lambda>st1.
     Inr (emit (tab # ''cset'' @ tab # ''x0, eq'') 
         (emit (tab # ''cmp'' @ tab # ''x1, x0'')
         (emit (tab # ''ldr'' @ tab # ''x1, [sp], #16'') st1)))))"
| "codegen_visit (NotEqual r a b) st =
     and_then (codegen_visit a st) (\<lambda>st0.
     and_then (codegen_visit b (emit (tab # ''str'' @ tab # ''x0, [sp, #-16]!'') st0)) (\<lambda>st1.
     Inr (emit (tab # ''cset'' @ tab # ''x0, ne'') 
         (emit (tab # ''cmp'' @ tab # ''x1, x0'')
         (emit (tab # ''ldr'' @ tab # ''x1, [sp], #16'') st1)))))"
| "codegen_visit (Add r a b) st =
     and_then (codegen_visit a st) (\<lambda>st0.
     and_then (codegen_visit b (emit (tab # ''str'' @ tab # ''x0, [sp, #-16]!'') st0)) (\<lambda>st1.
     Inr (emit (tab # ''add'' @ tab # ''x0, x1, x0'')
         (emit (tab # ''ldr'' @ tab # ''x1, [sp], #16'') st1))))"
| "codegen_visit (Subtract r a b) st =
     and_then (codegen_visit a st) (\<lambda>st0.
     and_then (codegen_visit b (emit (tab # ''str'' @ tab # ''x0, [sp, #-16]!'') st0)) (\<lambda>st1.
     Inr (emit (tab # ''sub'' @ tab # ''x0, x1, x0'')
         (emit (tab # ''ldr'' @ tab # ''x1, [sp], #16'') st1))))"
| "codegen_visit (Multiply r a b) st =
     and_then (codegen_visit a st) (\<lambda>st0.
     and_then (codegen_visit b (emit (tab # ''str'' @ tab # ''x0, [sp, #-16]!'') st0)) (\<lambda>st1.
     Inr (emit (tab # ''mul'' @ tab # ''x0, x1, x0'')
         (emit (tab # ''ldr'' @ tab # ''x1, [sp], #16'') st1))))"
| "codegen_visit (Divide r a b) st =
     and_then (codegen_visit a st) (\<lambda>st0.
     and_then (codegen_visit b (emit (tab # ''str'' @ tab # ''x0, [sp, #-16]!'') st0)) (\<lambda>st1.
     Inr (emit (tab # ''div'' @ tab # ''x0, x1, x0'')
         (emit (tab # ''ldr'' @ tab # ''x1, [sp], #16'') st1))))"
| "codegen_visit (Call r callee args) st =
     and_then
       (if length args > 1
        then
          and_then (codegen_args args 0 (emit (tab # ''sub'' @ tab # ''sp, sp, #32'') st)) (\<lambda>st1.
          Inr (emit (tab # ''ldp'' @ tab # ''x2, x3, [sp], #16'')
              (emit (tab # ''ldp'' @ tab # ''x0, x1, [sp], #16'') st1)))
        else codegen_forEach args st) (\<lambda>st2.
     Inr (emit (tab # ''bl'' @ tab # ''_'' @ callee) st2))"
| "codegen_visit (Return r t) st =
     and_then (codegen_visit t st) (\<lambda>st1.
     Inr (emit (tab # ''b'' @ tab # exitLabel_text (exitLabel st1)) st1))"
| "codegen_visit (Block r statements) st = codegen_forEach statements st"
| "codegen_visit (If_node r conditional consequence alternative) st =
     (let (ifFalseLabel, st1) = new_Label st;
          (endIfLabel, st2) = new_Label st1
      in
        and_then (codegen_visit conditional st2) (\<lambda>st3.
        and_then (codegen_visit consequence
                   (emit (tab # ''bne'' @ tab # Label_toString ifFalseLabel)
                   (emit (tab # ''cmp'' @ tab # ''x0, #1'') st3))) (\<lambda>st4.
        and_then (codegen_visit alternative
                   (emit (Label_toString ifFalseLabel @ '':'')
                   (emit (tab # ''b'' @ tab # Label_toString endIfLabel) st4))) (\<lambda>st5.
        Inr (emit (Label_toString endIfLabel @ '':'') st5)))))"
| "codegen_visit (Function r name parameters body) st =
     (if length parameters > 4
      then Inl (Error ''More than 4 params is not supported'')
      else
        and_then (codegen_visit body
                   (emitPrologue
                   (emit (''_'' @ name @ '':'')
                   (emit (tab # ''.p2align'' @ tab # ''2'')
                   (emit (tab # ''.globl'' @ tab # ''_'' @ name)
                   (setupEnvironment parameters st)))))) (\<lambda>st1.
        Inr (teardownEnvironment (emitEpilogue st1))))"
| "codegen_visit (Var r name v) st =
     and_then (codegen_visit v st) (\<lambda>st1.
     let st2 = emit (tab # ''str'' @ tab # ''x0, [sp, #-16]!'') st1
     in (case locals st2 of
           None \<Rightarrow> Inl TypeError
         | Some m \<Rightarrow>
             Inr (st2\<lparr>locals := Some (m(name \<mapsto> nextLocalOffset st2 - 8)),
                      nextLocalOffset := nextLocalOffset st2 - 16\<rparr>)))"
| "codegen_visit (Assign r name v) st =
     and_then (codegen_visit v st) (\<lambda>st1.
     and_then (local_offset name st1) (\<lambda>offset.
     Inr (emit (tab # ''str'' @ tab # ''x0, [x29, #'' @ show_int offset @ '']'') st1)))"
| "codegen_visit (While r conditional body) st =
     (let (startLoopLabel, st1) = new_Label st;
          (endLoopLabel, st2) = new_Label st1
      in
        and_then (codegen_visit conditional
                   (emit (Label_toString startLoopLabel @ '':'') st2)) (\<lambda>st3.
        and_then (codegen_visit body
                   (emit (tab # ''bne'' @ tab # Label_toString endLoopLabel)
                   (emit (tab # ''cmp'' @ tab # ''x0, #1'') st3))) (\<lambda>st4.
        Inr (emit (Label_toString endLoopLabel @ '':'')
            (emit (tab # ''b'' @ tab # Label_toString startLoopLabel) st4)))))"
| "codegen_visit (Module r functions) st =
     codegen_functions functions
       (emit (tab # ''.section'' @ tab # ''__TEXT,__text,regular,pure_instructions'') st)"
| "codegen_forEach [] st = Inr st"
| "codegen_forEach (n # ns) st =
     and_then (codegen_visit n st) (\<lambda>st1. codegen_forEach ns st1)"
| "codegen_args [] i st = Inr st"
| "codegen_args (arg # args) i st =
     and_then (codegen_visit arg st) (\<lambda>st1.
     codegen_args args (i + 1)
       (emit (tab # ''str'' @ tab # ''x0, [sp, #'' @ show_nat (8 * i) @ '']'') st1))"
| "codegen_functions [] st = Inr st"
| "codegen_functions (func # funcs) st =
     and_then (codegen_visit func (emit '''' st)) (\<lambda>st1. codegen_functions funcs st1)"

definition new_CodeGenerator :: CodeGenerator where
  "new_CodeGenerator =
     \<lparr>console = [], Label_counter = 0, exitLabel = None, locals = None, nextLocalOffset = 0\<rparr>"


section \<open>Assembly code generator over the analysed frames (src/unnamed/part\_002)\<close>

text \<open>
  The later version of \<^verbatim>\<open>CodeGenerator\<close> takes the result of \<^verbatim>\<open>analyzeFrames\<close> and reads
  the slot of a node from the frame of the function it is in.
\<close>

record 'r CodeGenerator_frames = Emitter +
  frameInfos :: "string \<rightharpoonup> 'r FunctionFrame option"
  currentFrameInfo :: "'r FunctionFrame option"

text \<open>
  \<^verbatim>\<open>${-offset * 8}\<close> for \<^verbatim>\<open>offset = this.#currentFrameInfo!.getOffset(node)!\<close>: a node the
  frame does not know has the offset \<^verbatim>\<open>undefined\<close>, and the product is \<^verbatim>\<open>NaN\<close>.
\<close>

definition frame_offset :: "'r AST \<Rightarrow> 'r CodeGenerator_frames \<Rightarrow> error + string" where
  "frame_offset node st =
     (case currentFrameInfo st of
        None \<Rightarrow> Inl TypeError
      | Some fr \<Rightarrow>
          (case getOffset fr node of
             None \<Rightarrow> Inr ''NaN''
           | Some offset \<Rightarrow> Inr (show_int (- int offset * 8))))"

definition setupEnvironment_frames ::
  "string \<Rightarrow> 'r CodeGenerator_frames \<Rightarrow> 'r CodeGenerator_frames" where
  "setupEnvironment_frames name st =
     (let (l, st1) =
        new_Label (st\<lparr>currentFrameInfo := (case frameInfos st name of None \<Rightarrow> None | Some fr \<Rightarrow> fr)\<rparr>)
      in st1\<lparr>exitLabel := Some l\<rparr>)"

definition teardownEnvironment_frames :: "'r CodeGenerator_frames \<Rightarrow> 'r CodeGenerator_frames" where
  "teardownEnvironment_frames st = st\<lparr>currentFrameInfo := None, exitLabel := None\<rparr>"

text \<open>
  The \<^verbatim>\<open>while (remainingArgs > 0)\<close> loop of \<^verbatim>\<open>emitPrologue\<close>. A count that is positive,
  not above 2 and not 2 is 1, the last branch; \<open>frameBytes\<close> is the local \<^verbatim>\<open>frameSize\<close>.
\<close>

function save_arguments :: "nat \<Rightarrow> nat \<Rightarrow> int \<Rightarrow> 'a Console_scheme \<Rightarrow> 'a Console_scheme" where
  "save_arguments remainingArgs argIndex frameBytes st =
     (if remainingArgs > 0 then
        (if remainingArgs > 2 then
           save_arguments (remainingArgs - 2) (argIndex + 2) (frameBytes - 16)
             (emit (tab # ''stp'' @ tab # ''x'' @ show_nat (argIndex + 1) @ '', x'' @
                    show_nat argIndex @ '', [sp, #-16]!'') st)
         else if remainingArgs = 2 then
           save_arguments (remainingArgs - 2) argIndex frameBytes
             (emit (tab # ''stp'' @ tab # ''x'' @ show_nat (argIndex + 1) @ '', x'' @
                    show_nat argIndex @ '', [sp, #'' @ show_int (- frameBytes) @ '']!'') st)
         else
           save_arguments (remainingArgs - 1) argIndex frameBytes
             (emit (tab # ''str'' @ tab # ''x'' @ show_nat argIndex @
                    '', [sp, #'' @ show_int (- frameBytes) @ '']!'') st))
      else st)"
  by pat_completeness auto
termination
  by (relation "measure (\<lambda>(remainingArgs, argIndex, frameBytes, st). remainingArgs)") auto

declare save_arguments.simps [simp del]

definition emitPrologue_frames ::
  "string list \<Rightarrow> 'r CodeGenerator_frames \<Rightarrow> error + 'r CodeGenerator_frames" where
  "emitPrologue_frames parameters st =
     (let st1 = emit (tab # ''mov'' @ tab # ''x29, sp'')
               (emit (tab # ''stp'' @ tab # ''x29, x30, [sp, #-16]!'') st)
      in
        if length parameters > 8
        then Inl (Error ''Maximum 8 arguments are supported'')
        else
          (case currentFrameInfo st1 of
             None \<Rightarrow> Inl TypeError
           | Some fr \<Rightarrow>
               (let frameBytes = int ((frameSize fr + 1) div 2) * 16
                in
                  if length parameters = 0 \<and> frameBytes > 0
                  then Inr (emit (tab # ''sub'' @ tab # ''sp, sp, #'' @ show_int frameBytes) st1)
                  else Inr (save_arguments (length parameters) 0 frameBytes st1))))"

text \<open>
  \<open>codegen_frames_visit\<close> and its loops, as \<open>codegen_visit\<close> above; \<^verbatim>\<open>visitId\<close>,
  \<^verbatim>\<open>visitVar\<close>, \<^verbatim>\<open>visitAssign\<close> and \<^verbatim>\<open>visitFunction\<close> are the methods that differ.
\<close>

fun codegen_frames_visit ::
    "'r AST \<Rightarrow> 'r CodeGenerator_frames \<Rightarrow> error + 'r CodeGenerator_frames"
  and codegen_frames_forEach ::
    "'r AST list \<Rightarrow> 'r CodeGenerator_frames \<Rightarrow> error + 'r CodeGenerator_frames"
  and codegen_frames_args ::
    "'r AST list \<Rightarrow> nat \<Rightarrow> 'r CodeGenerator_frames \<Rightarrow> error + 'r CodeGenerator_frames"
  and codegen_frames_functions ::
    "'r AST list \<Rightarrow> 'r CodeGenerator_frames \<Rightarrow> error + 'r CodeGenerator_frames" where
  "codegen_frames_visit (Number r v) st =
     Inr (emit (tab # ''ldr'' @ tab # ''x0, ='' @ show_int v) st)"
| "codegen_frames_visit (Id_node r x) st =
     and_then (frame_offset (Id_node r x) st) (\<lambda>offset.
     Inr (emit (tab # ''ldr'' @ tab # ''x0, [x29, #'' @ offset @ '']'') st))"
| "codegen_frames_visit (Not_node r t) st =
     and_then (codegen_frames_visit t st) (\<lambda>st1.
     Inr (emit (tab # ''cset'' @ tab # ''x0, ne'') (emit (tab # ''cmp'' @ tab # ''x0, #1'') st1)))"
| "codegen_frames_visit (Equal r a b) st =
     and_then (codegen_frames_visit a st) (\<lambda>st0.
     and_then (codegen_frames_visit b (emit (tab # ''str'' @ tab # ''x0, [sp, #-16]!'') st0)) (\<lambda>st1.
     Inr (emit (tab # ''cset'' @ tab # ''x0, eq'') 
         (emit (tab # ''cmp'' @ tab # ''x1, x0'')
         (emit (tab # ''ldr'' @ tab # ''x1, [sp], #16'') st1)))))"
| "codegen_frames_visit (NotEqual r a b) st =
     and_then (codegen_frames_visit a st) (\<lambda>st0.
     and_then (codegen_frames_visit b (emit (tab # ''str'' @ tab # ''x0, [sp, #-16]!'') st0)) (\<lambda>st1.
     Inr (emit (tab # ''cset'' @ tab # ''x0, ne'') 
         (emit (tab # ''cmp'' @ tab # ''x1, x0'')
         (emit (tab # ''ldr'' @ tab # ''x1, [sp], #16'') st1)))))"
| "codegen_frames_visit (Add r a b) st =
     and_then (codegen_frames_visit a st) (\<lambda>st0.
     and_then (codegen_frames_visit b (emit (tab # ''str'' @ tab # ''x0, [sp, #-16]!'') st0)) (\<lambda>st1.
     Inr (emit (tab # ''add'' @ tab # ''x0, x1, x0'')
         (emit (tab # ''ldr'' @ tab # ''x1, [sp], #16'') st1))))"
| "codegen_frames_visit (Subtract r a b) st =
     and_then (codegen_frames_visit a st) (\<lambda>st0.
     and_then (codegen_frames_visit b (emit (tab # ''str'' @ tab # ''x0, [sp, #-16]!'') st0)) (\<lambda>st1.
     Inr (emit (tab # ''sub'' @ tab # ''x0, x1, x0'')
         (emit (tab # ''ldr'' @ tab # ''x1, [sp], #16'') st1))))"
| "codegen_frames_visit (Multiply r a b) st =
     and_then (codegen_frames_visit a st) (\<lambda>st0.
     and_then (codegen_frames_visit b (emit (tab # ''str'' @ tab # ''x0, [sp, #-16]!'') st0)) (\<lambda>st1.
     Inr (emit (tab # ''mul'' @ tab # ''x0, x1, x0'')
         (emit (tab # ''ldr'' @ tab # ''x1, [sp], #16'') st1))))"
| "codegen_frames_visit (Divide r a b) st =
     and_then (codegen_frames_visit a st) (\<lambda>st0.
     and_then (codegen_frames_visit b (emit (tab # ''str'' @ tab # ''x0, [sp, #-16]!'') st0)) (\<lambda>st1.
     Inr (emit (tab # ''div'' @ tab # ''x0, x1, x0'')
         (emit (tab # ''ldr'' @ tab # ''x1, [sp], #16'') st1))))"
| "codegen_frames_visit (Call r callee args) st =
     and_then
       (if length args > 1
        then
          and_then (codegen_frames_args args 0 (emit (tab # ''sub'' @ tab # ''sp, sp, #32'') st)) (\<lambda>st1.
          Inr (emit (tab # ''ldp'' @ tab # ''x2, x3, [sp], #16'')
              (emit (tab # ''ldp'' @ tab # ''x0, x1, [sp], #16'') st1)))
        else codegen_frames_forEach args st) (\<lambda>st2.
     Inr (emit (tab # ''bl'' @ tab # ''_'' @ callee) st2))"
| "codegen_frames_visit (Return r t) st =
     and_then (codegen_frames_visit t st) (\<lambda>st1.
     Inr (emit (tab # ''b'' @ tab # exitLabel_text (exitLabel st1)) st1))"
| "codegen_frames_visit (Block r statements) st = codegen_frames_forEach statements st"
| "codegen_frames_visit (If_node r conditional consequence alternative) st =
     (let (ifFalseLabel, st1) = new_Label st;
          (endIfLabel, st2) = new_Label st1
      in
        and_then (codegen_frames_visit conditional st2) (\<lambda>st3.
        and_then (codegen_frames_visit consequence
                   (emit (tab # ''bne'' @ tab # Label_toString ifFalseLabel)
                   (emit (tab # ''cmp'' @ tab # ''x0, #1'') st3))) (\<lambda>st4.
        and_then (codegen_frames_visit alternative
                   (emit (Label_toString ifFalseLabel @ '':'')
                   (emit (tab # ''b'' @ tab # Label_toString endIfLabel) st4))) (\<lambda>st5.
        Inr (emit (Label_toString endIfLabel @ '':'') st5)))))"
| "codegen_frames_visit (Function r name parameters body) st =
     (if length parameters > 4
      then Inl (Error ''More than 4 params is not supported'')
      else
        and_then (emitPrologue_frames parameters
                   (emit (''_'' @ name @ '':'')
                   (emit (tab # ''.p2align'' @ tab # ''2'')
                   (emit (tab # ''.globl'' @ tab # ''_'' @ name)
                   (setupEnvironment_frames name st))))) (\<lambda>st1.
        and_then (codegen_frames_visit body st1) (\<lambda>st2.
        Inr (teardownEnvironment_frames (emitEpilogue st2)))))"
| "codegen_frames_visit (Var r name v) st =
     and_then (codegen_frames_visit v st) (\<lambda>st1.
     and_then (frame_offset (Var r name v) st1) (\<lambda>offset.
     Inr (emit (tab # ''str'' @ tab # ''x0, [x29, #'' @ offset @ '']'') st1)))"
| "codegen_frames_visit (Assign r name v) st =
     and_then (codegen_frames_visit v st) (\<lambda>st1.
     and_then (frame_offset (Assign r name v) st1) (\<lambda>offset.
     Inr (emit (tab # ''str'' @ tab # ''x0, [x29, #'' @ offset @ '']'') st1)))"
| "codegen_frames_visit (While r conditional body) st =
     (let (startLoopLabel, st1) = new_Label st;
          (endLoopLabel, st2) = new_Label st1
      in
        and_then (codegen_frames_visit conditional
                   (emit (Label_toString startLoopLabel @ '':'') st2)) (\<lambda>st3.
        and_then (codegen_frames_visit body
                   (emit (tab # ''bne'' @ tab # Label_toString endLoopLabel)
                   (emit (tab # ''cmp'' @ tab # ''x0, #1'') st3))) (\<lambda>st4.
        Inr (emit (Label_toString endLoopLabel @ '':'')
            (emit (tab # ''b'' @ tab # Label_toString startLoopLabel) st4)))))"
| "codegen_frames_visit (Module r functions) st =
     codegen_frames_functions functions
       (emit (tab # ''.section'' @ tab # ''__TEXT,__text,regular,pure_instructions'') st)"
| "codegen_frames_forEach [] st = Inr st"
| "codegen_frames_forEach (n # ns) st =
     and_then (codegen_frames_visit n st) (\<lambda>st1. codegen_frames_forEach ns st1)"
| "codegen_frames_args [] i st = Inr st"
| "codegen_frames_args (arg # args) i st =
     and_then (codegen_frames_visit arg st) (\<lambda>st1.
     codegen_frames_args args (i + 1)
       (emit (tab # ''str'' @ tab # ''x0, [sp, #'' @ show_nat (8 * i) @ '']'') st1))"
| "codegen_frames_functions [] st = Inr st"
| "codegen_frames_functions (func # funcs) st =
     and_then (codegen_frames_visit func (emit '''' st)) (\<lambda>st1. codegen_frames_functions funcs st1)"


definition new_CodeGenerator_frames ::
  "(string \<rightharpoonup> 'r FunctionFrame option) \<Rightarrow> 'r CodeGenerator_frames" where
  "new_CodeGenerator_frames infos =
     \<lparr>console = [], Label_counter = 0, exitLabel = None, frameInfos = infos,
      currentFrameInfo = None\<rparr>"

section \<open>What the code generators need of a function body\<close>

text \<open>The error of \<^verbatim>\<open>visitFunction\<close> for a declaration with too many parameters.\<close>

definition arity_error :: error where
  "arity_error = Error ''More than 4 params is not supported''"

text \<open>
  The names bound once the generator of codegen.ts has walked a node, starting from the
  bound names \<open>D\<close>, in the order of its visit methods (\<^verbatim>\<open>visitIf\<close>: conditional,
  consequence, alternative). \<open>None\<close> when the walk reads or assigns a name that is not
  bound yet, or meets a function declaration.
\<close>

fun defined_after :: "'r AST \<Rightarrow> string set \<Rightarrow> string set option"
  and defined_after_each :: "'r AST list \<Rightarrow> string set \<Rightarrow> string set option" where
  "defined_after (Number r v) D = Some D"
| "defined_after (Id_node r x) D = (if x \<in> D then Some D else None)"
| "defined_after (Not_node r t) D = defined_after t D"
| "defined_after (Equal r a b) D = Option.bind (defined_after a D) (defined_after b)"
| "defined_after (NotEqual r a b) D = Option.bind (defined_after a D) (defined_after b)"
| "defined_after (Add r a b) D = Option.bind (defined_after a D) (defined_after b)"
| "defined_after (Subtract r a b) D = Option.bind (defined_after a D) (defined_after b)"
| "defined_after (Multiply r a b) D = Option.bind (defined_after a D) (defined_after b)"
| "defined_after (Divide r a b) D = Option.bind (defined_after a D) (defined_after b)"
| "defined_after (Call r callee args) D = defined_after_each args D"
| "defined_after (Return r t) D = defined_after t D"
| "defined_after (Block r statements) D = defined_after_each statements D"
| "defined_after (If_node r conditional consequence alternative) D =
     Option.bind (defined_after conditional D) (\<lambda>D1.
     Option.bind (defined_after consequence D1) (defined_after alternative))"
| "defined_after (Function r name parameters body) D = None"
| "defined_after (Var r name v) D = map_option (insert name) (defined_after v D)"
| "defined_after (Assign r name v) D =
     Option.bind (defined_after v D) (\<lambda>D1. if name \<in> D1 then Some D1 else None)"
| "defined_after (While r conditional body) D =
     Option.bind (defined_after conditional D) (defined_after body)"
| "defined_after (Module r functions) D = None"
| "defined_after_each [] D = Some D"
| "defined_after_each (n # ns) D = Option.bind (defined_after n D) (defined_after_each ns)"

text \<open>
  The states of the generator of codegen.ts in which the bound names are \<open>D\<close>: no name
  has the falsy offset 0, and the next offset is negative. The states of the generator
  over frames that are inside a function whose frame is \<open>fr\<close>.
\<close>

definition env_ok :: "string set \<Rightarrow> CodeGenerator \<Rightarrow> bool" where
  "env_ok D st \<longleftrightarrow>
     (\<exists>m. locals st = Some m \<and> dom m = D \<and> (\<forall>x. m x \<noteq> Some 0) \<and> nextLocalOffset st < 0)"

definition in_frame :: "'r FunctionFrame \<Rightarrow> 'r CodeGenerator_frames \<Rightarrow> bool" where
  "in_frame fr st \<longleftrightarrow> currentFrameInfo st = Some fr"

text \<open>
  A walk \<open>succeeds P\<close> when it returns a state that satisfies \<open>P\<close>, and
  \<open>never_throws e\<close> when its outcome is not the error \<open>e\<close>.
\<close>

definition succeeds :: "('s \<Rightarrow> bool) \<Rightarrow> error + 's \<Rightarrow> bool" where
  "succeeds P res = (case res of Inl e \<Rightarrow> False | Inr st \<Rightarrow> P st)"

definition never_throws :: "error \<Rightarrow> error + 's \<Rightarrow> bool" where
  "never_throws e res \<longleftrightarrow> res \<noteq> Inl e"

section \<open>MLIR code generator (mlir.ts, kept in src/mlir.sh)\<close>

text \<open>
  A \<^verbatim>\<open>Value\<close> is its number, taken from the static \<^verbatim>\<open>Value.#counter\<close>; a visit method
  returns a value or \<^verbatim>\<open>undefined\<close>. The labels of this file print as \<^verbatim>\<open>^bb\<close>\<open>n\<close>.
\<close>

record 'r MlirCodegen = Console +
  Value_counter :: nat
  frameInfos_mlir :: "string \<rightharpoonup> 'r FunctionFrame option"
  currentFrame_mlir :: "'r FunctionFrame option"
  frameVars :: "nat list option"

definition ty :: string where
  "ty = ''i64''"

definition Value_toString :: "nat \<Rightarrow> string" where
  "Value_toString v = ''%'' @ show_nat v"

definition mlir_Label_toString :: "nat \<Rightarrow> string" where
  "mlir_Label_toString l = ''^bb'' @ show_nat l"

text \<open>
  The text of a value or of \<^verbatim>\<open>undefined\<close> in a template literal, and in
  \<^verbatim>\<open>Array.prototype.join\<close>, where \<^verbatim>\<open>undefined\<close> is the empty string.
\<close>

fun template_text :: "nat option \<Rightarrow> string" where
  "template_text None = ''undefined''"
| "template_text (Some v) = Value_toString v"

fun join_text :: "nat option \<Rightarrow> string" where
  "join_text None = ''''"
| "join_text (Some v) = Value_toString v"

fun join :: "string \<Rightarrow> string list \<Rightarrow> string" where
  "join sep [] = ''''"
| "join sep [x] = x"
| "join sep (x # y # ys) = x @ sep @ join sep (y # ys)"

definition new_Value :: "'r MlirCodegen \<Rightarrow> nat \<times> 'r MlirCodegen" where
  "new_Value st = (Value_counter st, st\<lparr>Value_counter := Value_counter st + 1\<rparr>)"

definition emitLabel :: "nat \<Rightarrow> 'r MlirCodegen \<Rightarrow> 'r MlirCodegen" where
  "emitLabel label st = emit (''  '' @ mlir_Label_toString label @ '':'') st"

definition emitBr :: "nat \<Rightarrow> nat \<Rightarrow> 'r MlirCodegen \<Rightarrow> 'r MlirCodegen" where
  "emitBr jumpLabel nextLabel st =
     emitLabel nextLabel (emit (''    cf.br '' @ mlir_Label_toString jumpLabel) st)"

definition loadNumber :: "int \<Rightarrow> 'r MlirCodegen \<Rightarrow> nat \<times> 'r MlirCodegen" where
  "loadNumber n st =
     (let (v, st1) = new_Value st
      in (v, emit (''    '' @ Value_toString v @ '' = arith.constant '' @ show_int n @
                   '' : '' @ ty) st1))"

text \<open>
  \<^verbatim>\<open>this.#frameVars![this.#currentFrame!.getOffset(node)!]\<close>: the variable of the slot of
  a node, \<^verbatim>\<open>undefined\<close> when the frame does not know the node or the slot is not in
  the array.
\<close>

definition frame_ref :: "'r AST \<Rightarrow> 'r MlirCodegen \<Rightarrow> error + nat option" where
  "frame_ref node st =
     (case currentFrame_mlir st of
        None \<Rightarrow> Inl TypeError
      | Some fr \<Rightarrow>
          (case frameVars st of
             None \<Rightarrow> Inl TypeError
           | Some vars \<Rightarrow>
               (case getOffset fr node of
                  None \<Rightarrow> Inr None
                | Some offset \<Rightarrow>
                    Inr (if offset < length vars then Some (vars ! offset) else None))))"

text \<open>
  The two loops of \<^verbatim>\<open>visitFunction\<close>: one \<^verbatim>\<open>memref.alloca\<close> for each slot of the
  frame, and one \<^verbatim>\<open>memref.store\<close> for each parameter \<open>i\<close> into \<^verbatim>\<open>frameVars[i]\<close>.
\<close>

fun allocate_frameVars :: "nat \<Rightarrow> 'r MlirCodegen \<Rightarrow> nat list \<times> 'r MlirCodegen" where
  "allocate_frameVars 0 st = ([], st)"
| "allocate_frameVars (Suc k) st =
     (let (v, st1) = new_Value st;
          (vars, st2) = allocate_frameVars k
             (emit (''    '' @ Value_toString v @ '' = memref.alloca() : memref<'' @ ty @ ''>'') st1)
      in (v # vars, st2))"

fun store_parameters :: "string list \<Rightarrow> nat \<Rightarrow> nat list \<Rightarrow> 'r MlirCodegen \<Rightarrow> 'r MlirCodegen" where
  "store_parameters [] i vars st = st"
| "store_parameters (param # params) i vars st =
     store_parameters params (i + 1) vars
       (emit (''    memref.store %'' @ param @ '', '' @
              template_text (if i < length vars then Some (vars ! i) else None) @
              ''[] : memref<'' @ ty @ ''>'') st)"

definition emit_switch :: "nat option \<Rightarrow> nat \<Rightarrow> nat \<Rightarrow> 'r MlirCodegen \<Rightarrow> 'r MlirCodegen" where
  "emit_switch conditional defaultLabel oneLabel st =
     emit ''    ]''
     (emit (''      1: '' @ mlir_Label_toString oneLabel)
     (emit (''      default: '' @ mlir_Label_toString defaultLabel @ '','')
     (emit (''    cf.switch '' @ template_text conditional @ '' : '' @ ty @ '', ['') st)))"

text \<open>
  \<open>mlir_visit node st\<close> is \<^verbatim>\<open>node.visit(codegen)\<close>: the value returned and the state
  after. \<open>visitComp\<close> and \<open>visitArithOp\<close> are the private methods of these names, given
  the two values of the operands; \<open>mlir_forEach\<close> is \<^verbatim>\<open>nodes.forEach((n, _) => n.visit(this))\<close>
  and \<open>mlir_map\<close> is \<^verbatim>\<open>node.args.map((arg) => arg.visit(this)!)\<close>.
\<close>

definition visitComp ::
  "string \<Rightarrow> nat option \<Rightarrow> nat option \<Rightarrow> 'r MlirCodegen \<Rightarrow> nat option \<times> 'r MlirCodegen" where
  "visitComp pred left right st =
     (let (zero, st1) = loadNumber 0 st;
          (one, st2) = loadNumber 1 st1;
          (cond, st3) = new_Value st2;
          (v, st4) = new_Value st3
      in (Some v,
          emit (''    '' @ Value_toString v @ '' = arith.select '' @ Value_toString cond @ '', '' @
                Value_toString one @ '', '' @ Value_toString zero @ '' : '' @ ty)
         (emit (''    '' @ Value_toString cond @ '' = arith.cmpi '' @ pred @ '', '' @
                template_text left @ '', '' @ template_text right @ '' : '' @ ty) st4)))"

definition visitArithOp ::
  "string \<Rightarrow> nat option \<Rightarrow> nat option \<Rightarrow> 'r MlirCodegen \<Rightarrow> nat option \<times> 'r MlirCodegen" where
  "visitArithOp op left right st =
     (let (v, st1) = new_Value st
      in (Some v,
          emit (''    '' @ Value_toString v @ '' = arith.'' @ op @ '' '' @
                template_text left @ '', '' @ template_text right @ '' : '' @ ty) st1))"

fun mlir_visit :: "'r AST \<Rightarrow> 'r MlirCodegen \<Rightarrow> error + nat option \<times> 'r MlirCodegen"
  and mlir_forEach :: "'r AST list \<Rightarrow> 'r MlirCodegen \<Rightarrow> error + 'r MlirCodegen"
  and mlir_map :: "'r AST list \<Rightarrow> 'r MlirCodegen \<Rightarrow> error + nat option list \<times> 'r MlirCodegen"
where
  "mlir_visit (Number r n) st = (let (v, st1) = loadNumber n st in Inr (Some v, st1))"
| "mlir_visit (Id_node r x) st =
     and_then (frame_ref (Id_node r x) st) (\<lambda>ref.
     let (v, st1) = new_Value st
     in Inr (Some v,
             emit (''    '' @ Value_toString v @ '' = memref.load '' @ template_text ref @
                   ''[] : memref<'' @ ty @ ''>'') st1))"
| "mlir_visit (Not_node r t) st =
     and_then (mlir_visit t st) (\<lambda>(term, st0).
     let (zero, st1) = loadNumber 0 st0;
         (one, st2) = loadNumber 1 st1;
         (cond, st3) = new_Value st2;
         (v, st4) = new_Value st3
     in Inr (Some v,
             emit (''    '' @ Value_toString v @ '' = arith.select '' @ Value_toString cond @
                   '', '' @ Value_toString zero @ '', '' @ Value_toString one @ '' : '' @ ty)
            (emit (''    '' @ Value_toString cond @ '' = arith.cmpi eq, '' @ template_text term @
                   '', '' @ Value_toString one @ '' : '' @ ty) st4)))"
| "mlir_visit (Equal r a b) st =
     and_then (mlir_visit a st) (\<lambda>(left, st1).
     and_then (mlir_visit b st1) (\<lambda>(right, st2).
     Inr (visitComp ''eq'' left right st2)))"
| "mlir_visit (NotEqual r a b) st =
     and_then (mlir_visit a st) (\<lambda>(left, st1).
     and_then (mlir_visit b st1) (\<lambda>(right, st2).
     Inr (visitComp ''ne'' left right st2)))"
| "mlir_visit (Add r a b) st =
     and_then (mlir_visit a st) (\<lambda>(left, st1).
     and_then (mlir_visit b st1) (\<lambda>(right, st2).
     Inr (visitArithOp ''addi'' left right st2)))"
| "mlir_visit (Subtract r a b) st =
     and_then (mlir_visit a st) (\<lambda>(left, st1).
     and_then (mlir_visit b st1) (\<lambda>(right, st2).
     Inr (visitArithOp ''subi'' left right st2)))"
| "mlir_visit (Multiply r a b) st =
     and_then (mlir_visit a st) (\<lambda>(left, st1).
     and_then (mlir_visit b st1) (\<lambda>(right, st2).
     Inr (visitArithOp ''muli'' left right st2)))"
| "mlir_visit (Divide r a b) st =
     and_then (mlir_visit a st) (\<lambda>(left, st1).
     and_then (mlir_visit b st1) (\<lambda>(right, st2).
     Inr (visitArithOp ''divsi'' left right st2)))"
| "mlir_visit (Call r callee args) st =
     and_then (mlir_map args st) (\<lambda>(values, st1).
     let argStr = join '', '' (map join_text values);
         typeStr = join '', '' (replicate (length args) ty);
         (v, st2) = new_Value st1
     in Inr (Some v,
             emit (''    '' @ Value_toString v @ '' = call @'' @ callee @ ''('' @ argStr @
                   '') : ('' @ typeStr @ '') -> '' @ ty) st2))"
| "mlir_visit (Return r t) st =
     and_then (mlir_visit t st) (\<lambda>(term, st1).
     let (wasteLabel, st2) =
           new_Label (emit (''    return '' @ template_text term @ '' : '' @ ty) st1)
     in Inr (None, emitLabel wasteLabel st2))"
| "mlir_visit (Block r statements) st =
     and_then (mlir_forEach statements st) (\<lambda>st1. Inr (None, st1))"
| "mlir_visit (If_node r conditional consequence alternative) st =
     and_then (mlir_visit conditional st) (\<lambda>(cond, st0).
     let (ifTrueLabel, st1) = new_Label st0;
         (ifFalseLabel, st2) = new_Label st1;
         (endIfLabel, st3) = new_Label st2
     in
       and_then (mlir_visit consequence
                  (emitLabel ifTrueLabel (emit_switch cond ifFalseLabel ifTrueLabel st3)))
         (\<lambda>(v1, st4).
       and_then (mlir_visit alternative (emitBr endIfLabel ifFalseLabel st4)) (\<lambda>(v2, st5).
       Inr (None, emitBr endIfLabel endIfLabel st5))))"
| "mlir_visit (Function r name parameters body) st =
     (let argStr = join '', '' (map (\<lambda>param. ''%'' @ param @ '' : '' @ ty) parameters);
          st1 = emit (''  func.func @'' @ name @ ''('' @ argStr @ '') -> '' @ ty @ '' {'') st
      in
        (case (case frameInfos_mlir st1 name of None \<Rightarrow> None | Some fr \<Rightarrow> fr) of
           None \<Rightarrow> Inl TypeError
         | Some frame \<Rightarrow>
             (let (vars, st2) = allocate_frameVars (frameSize frame) st1;
                  st3 = store_parameters parameters 0 vars st2
              in
                and_then (mlir_visit body
                           (st3\<lparr>currentFrame_mlir := Some frame,
                                frameVars := Some vars\<rparr>)) (\<lambda>(v, st4).
                let (zero, st5) =
                      loadNumber 0 (st4\<lparr>currentFrame_mlir := None, frameVars := None\<rparr>)
                in Inr (None,
                        emit ''  }''
                       (emit (''    return '' @ Value_toString zero @ '' : '' @ ty) st5))))))"
| "mlir_visit (Var r name v) st =
     and_then (mlir_visit v st) (\<lambda>(value, st1).
     and_then (frame_ref (Var r name v) st1) (\<lambda>ref.
     Inr (None,
          emit (''    memref.store '' @ template_text value @ '', '' @ template_text ref @
                ''[] : memref<'' @ ty @ ''>'') st1)))"
| "mlir_visit (Assign r name v) st =
     and_then (mlir_visit v st) (\<lambda>(value, st1).
     and_then (frame_ref (Assign r name v) st1) (\<lambda>ref.
     Inr (None,
          emit (''    memref.store '' @ template_text value @ '', '' @ template_text ref @
                ''[] : memref<'' @ ty @ ''>'') st1)))"
| "mlir_visit (While r conditional body) st =
     (let (loopStartLabel, st1) = new_Label st;
          (loopBodyLabel, st2) = new_Label st1;
          (loopEndLabel, st3) = new_Label st2
      in
        and_then (mlir_visit conditional (emitBr loopStartLabel loopStartLabel st3))
          (\<lambda>(cond, st4).
        and_then (mlir_visit body
                   (emitLabel loopBodyLabel (emit_switch cond loopEndLabel loopBodyLabel st4)))
          (\<lambda>(v, st5).
        Inr (None, emitBr loopStartLabel loopEndLabel st5))))"
| "mlir_visit (Module r functions) st =
     and_then (mlir_forEach functions (emit ''module {'' st)) (\<lambda>st1.
     Inr (None, emit ''}'' (emit ''  func.func private @print(i64) -> i64'' st1)))"
| "mlir_forEach [] st = Inr st"
| "mlir_forEach (n # ns) st =
     and_then (mlir_visit n st) (\<lambda>(v, st1). mlir_forEach ns st1)"
| "mlir_map [] st = Inr ([], st)"
| "mlir_map (n # ns) st =
     and_then (mlir_visit n st) (\<lambda>(v, st1).
     and_then (mlir_map ns st1) (\<lambda>(vs, st2). Inr (v # vs, st2)))"

definition new_MlirCodegen :: "(string \<rightharpoonup> 'r FunctionFrame option) \<Rightarrow> 'r MlirCodegen" where
  "new_MlirCodegen infos =
     \<lparr>console = [], Label_counter = 0, Value_counter = 0, frameInfos_mlir = infos,
      currentFrame_mlir = None, frameVars = None\<rparr>"

text \<open>
  \<open>compile_mlir\<close> is the pipeline for a module: \<^verbatim>\<open>analyzeFrames\<close>, then the generator over
  its result; the value is the lines printed.
\<close>

definition compile_mlir :: "'r AST \<Rightarrow> error + string list" where
  "compile_mlir ast =
     and_then (analyzeFrames ast) (\<lambda>infos.
     and_then (mlir_visit ast (new_MlirCodegen infos)) (\<lambda>(v, st). Inr (console st)))"

section \<open>Regular expressions of the tokens (parser.ts)\<close>

text \<open>
  The regular expressions of parser.ts are sequences of items of five kinds: one
  character of a class, a greedy \<^verbatim>\<open>*\<close> or \<^verbatim>\<open>+\<close> of a class, the word boundary \<^verbatim>\<open>\b\<close> and
  a negative lookahead \<^verbatim>\<open>(?!c)\<close> of a class. \<open>steps\<close> gives the positions after an item
  that starts at \<open>i\<close>, in the order in which a backtracking matcher tries them (the
  longest repetition first), and \<open>match_from\<close> the end of the first match of a sequence
  that starts at one of the given positions. A string is a list of 8-bit characters, so
  the line separators U+2028 and U+2029, which \<^verbatim>\<open>.\<close> leaves out as it does the line feed
  and the carriage return, do not occur in it.
\<close>

datatype item =
    One "char \<Rightarrow> bool"
  | Star "char \<Rightarrow> bool"
  | Plus "char \<Rightarrow> bool"
  | Word_boundary
  | Not_followed_by "char \<Rightarrow> bool"

type_synonym RegExp = "item list"

definition digit :: "char \<Rightarrow> bool" where
  "digit c \<longleftrightarrow> c \<in> set ''0123456789''"

definition letter :: "char \<Rightarrow> bool" where
  "letter c \<longleftrightarrow> c \<in> set ''abcdefghijklmnopqrstuvwxyzABCDEFGHIJKLMNOPQRSTUVWXYZ''"

definition word_char :: "char \<Rightarrow> bool" where
  "word_char c \<longleftrightarrow> letter c \<or> digit c \<or> c = CHR ''_''"

definition space_char :: "char \<Rightarrow> bool" where
  "space_char c \<longleftrightarrow> c = CHR '' '' \<or> c = CHR 0x0A \<or> c = CHR 0x0D \<or> c = CHR 0x09"

definition not_line_end :: "char \<Rightarrow> bool" where
  "not_line_end c \<longleftrightarrow> c \<noteq> CHR 0x0A \<and> c \<noteq> CHR 0x0D"

definition literal :: "string \<Rightarrow> RegExp" where
  "literal s = map (\<lambda>c. One (\<lambda>d. d = c)) s"

definition word_at :: "string \<Rightarrow> nat \<Rightarrow> bool" where
  "word_at s i \<longleftrightarrow> i < length s \<and> word_char (s ! i)"

definition run :: "(char \<Rightarrow> bool) \<Rightarrow> string \<Rightarrow> nat \<Rightarrow> nat" where
  "run c s i = length (takeWhile c (drop i s))"

fun steps :: "item \<Rightarrow> string \<Rightarrow> nat \<Rightarrow> nat list" where
  "steps (One c) s i = (if i < length s \<and> c (s ! i) then [i + 1] else [])"
| "steps (Star c) s i = rev [i ..< i + run c s i + 1]"
| "steps (Plus c) s i = rev [i + 1 ..< i + run c s i + 1]"
| "steps Word_boundary s i =
     (if (0 < i \<and> word_at s (i - 1)) \<noteq> word_at s i then [i] else [])"
| "steps (Not_followed_by c) s i = (if i < length s \<and> c (s ! i) then [] else [i])"

fun match_from :: "RegExp \<Rightarrow> string \<Rightarrow> nat list \<Rightarrow> nat option" where
  "match_from r s [] = None"
| "match_from [] s (i # rest) = Some i"
| "match_from (a # r) s (i # rest) =
     (case match_from r s (steps a s i) of
        Some e \<Rightarrow> Some e
      | None \<Rightarrow> match_from (a # r) s rest)"

section \<open>Parser combinators (parser.ts)\<close>

text \<open>
  A call of \<^verbatim>\<open>parse\<close> throws, returns \<^verbatim>\<open>null\<close> or returns
  \<^verbatim>\<open>new ParseResult(value, source)\<close>; a \<open>Parser\<close> is its \<^verbatim>\<open>parse\<close> function, whose
  value is \<open>None\<close> when the call does not return. The index of a source is a natural
  number.
\<close>

record Source =
  string :: string
  index :: nat

datatype 'a outcome = Throw error | Null | ParseResult 'a Source

type_synonym 'a Parser = "Source \<Rightarrow> 'a outcome option"

text \<open>
  \<^verbatim>\<open>Source.match\<close> for a sticky regular expression: the match is tried at \<^verbatim>\<open>index\<close> only,
  and fails when the index is past the end of the string.
\<close>

definition Source_match :: "RegExp \<Rightarrow> Source \<Rightarrow> string outcome" where
  "Source_match regexp source =
     (if length (string source) < index source then Null
      else
        (case match_from regexp (string source) [index source] of
           None \<Rightarrow> Null
         | Some e \<Rightarrow>
             (let val = take (e - index source) (drop (index source) (string source));
                  newIndex = index source + length val
              in ParseResult val \<lparr>string = string source, index = newIndex\<rparr>)))"

definition Parser_regexp :: "RegExp \<Rightarrow> string Parser" where
  "Parser_regexp regexp source = Some (Source_match regexp source)"

definition Parser_constant :: "'a \<Rightarrow> 'a Parser" where
  "Parser_constant val source = Some (ParseResult val source)"

definition Parser_error :: "string \<Rightarrow> 'a Parser" where
  "Parser_error msg source = Some (Throw (Error msg))"

definition Parser_or :: "'a Parser \<Rightarrow> 'a Parser \<Rightarrow> 'a Parser" where
  "Parser_or this parser source =
     (case this source of
        None \<Rightarrow> None
      | Some (Throw e) \<Rightarrow> Some (Throw e)
      | Some Null \<Rightarrow> parser source
      | Some (ParseResult v rest) \<Rightarrow> Some (ParseResult v rest))"

text \<open>
  The loop of \<^verbatim>\<open>zeroOrMore\<close>, from the results collected so far and the current source.
\<close>

partial_function (option) zeroOrMore_loop ::
  "'a Parser \<Rightarrow> 'a list \<Rightarrow> Source \<Rightarrow> 'a list outcome option" where
  "zeroOrMore_loop parser results source =
     (case parser source of
        None \<Rightarrow> None
      | Some (Throw e) \<Rightarrow> Some (Throw e)
      | Some Null \<Rightarrow> Some (ParseResult results source)
      | Some (ParseResult v rest) \<Rightarrow> zeroOrMore_loop parser (results @ [v]) rest)"

definition Parser_zeroOrMore :: "'a Parser \<Rightarrow> 'a list Parser" where
  "Parser_zeroOrMore parser source = zeroOrMore_loop parser [] source"

definition Parser_bind :: "'a Parser \<Rightarrow> ('a \<Rightarrow> 'b Parser) \<Rightarrow> 'b Parser" where
  "Parser_bind this callback source =
     (case this source of
        None \<Rightarrow> None
      | Some (Throw e) \<Rightarrow> Some (Throw e)
      | Some Null \<Rightarrow> Some Null
      | Some (ParseResult v rest) \<Rightarrow> callback v rest)"

definition Parser_and :: "'a Parser \<Rightarrow> 'b Parser \<Rightarrow> 'b Parser" where
  "Parser_and this parser = Parser_bind this (\<lambda>_. parser)"

definition Parser_map :: "'a Parser \<Rightarrow> ('a \<Rightarrow> 'b) \<Rightarrow> 'b Parser" where
  "Parser_map this callback = Parser_bind this (\<lambda>v. Parser_constant (callback v))"

text \<open>\<^verbatim>\<open>maybe\<close>: the value \<^verbatim>\<open>null\<close> of the second alternative is \<open>None\<close>.\<close>

definition Parser_maybe :: "'a Parser \<Rightarrow> 'a option Parser" where
  "Parser_maybe parser = Parser_or (Parser_map parser Some) (Parser_constant None)"

definition parseStringToCompletion :: "'a Parser \<Rightarrow> string \<Rightarrow> (error + 'a) option" where
  "parseStringToCompletion this s =
     (case this \<lparr>string = s, index = 0\<rparr> of
        None \<Rightarrow> None
      | Some (Throw e) \<Rightarrow> Some (Inl e)
      | Some Null \<Rightarrow> Some (Inl (Error ''Parse error at index 0''))
      | Some (ParseResult v rest) \<Rightarrow>
          if index rest \<noteq> length (string rest)
          then Some (Inl (Error (''Parse error at index '' @ show_nat (index rest))))
          else Some (Inr v))"

section \<open>Tokens and grammar (parser.ts)\<close>

definition whitespace :: "string Parser" where
  "whitespace = Parser_regexp [Plus space_char]"

definition comments :: "string Parser" where
  "comments =
     Parser_or (Parser_regexp (literal ''//'' @ [Star not_line_end]))
               (Parser_regexp (literal ''/*'' @ [Star (\<lambda>c. True)] @ literal ''*/''))"

definition ignored :: "string list Parser" where
  "ignored = Parser_zeroOrMore (Parser_or whitespace comments)"

definition token :: "RegExp \<Rightarrow> string Parser" where
  "token pattern =
     Parser_bind (Parser_regexp pattern) (\<lambda>val. Parser_and ignored (Parser_constant val))"

definition FUNCTION :: "string Parser" where
  "FUNCTION = token (literal ''function'' @ [Word_boundary])"

definition IF :: "string Parser" where
  "IF = token (literal ''if'' @ [Word_boundary])"

definition ELSE :: "string Parser" where
  "ELSE = token (literal ''else'' @ [Word_boundary])"

definition RETURN :: "string Parser" where
  "RETURN = token (literal ''return'' @ [Word_boundary])"

definition VAR :: "string Parser" where
  "VAR = token (literal ''var'' @ [Word_boundary])"

definition WHILE :: "string Parser" where
  "WHILE = token (literal ''while'' @ [Word_boundary])"

definition ASSIGN :: "string Parser" where
  "ASSIGN = token (literal ''='' @ [Not_followed_by (\<lambda>c. c = CHR ''='' \<or> c = CHR ''!'')])"

definition COMMA :: "string Parser" where
  "COMMA = token (literal '','')"

definition SEMICOLON :: "string Parser" where
  "SEMICOLON = token (literal '';'')"

definition LEFT_PAREN :: "string Parser" where
  "LEFT_PAREN = token (literal ''('')"

definition RIGHT_PAREN :: "string Parser" where
  "RIGHT_PAREN = token (literal '')'')"

definition LEFT_BRACE :: "string Parser" where
  "LEFT_BRACE = token (literal ''{'')"

definition RIGHT_BRACE :: "string Parser" where
  "RIGHT_BRACE = token (literal ''}'')"

text \<open>
  \<^verbatim>\<open>parseInt\<close> of a string of decimal digits: the double nearest to the number they
  write (\<^verbatim>\<open>Infinity\<close>, that is \<open>2 ^ 1024\<close>, from 309 digits on).
\<close>

definition parseInt :: "string \<Rightarrow> int" where
  "parseInt digits = to_double (foldl (\<lambda>n c. 10 * n + (of_char c - 48)) 0 digits)"

text \<open>
  The parser builds fresh nodes; their identity plays no part in parsing, and the nodes
  of the model all carry the tag \<open>()\<close>.
\<close>

definition NUMBER :: "unit AST Parser" where
  "NUMBER = Parser_map (token [Plus digit]) (\<lambda>digits. Number () (parseInt digits))"

definition ID :: "string Parser" where
  "ID = token [One (\<lambda>c. letter c \<or> c = CHR ''_''), Star word_char]"

definition id_parser :: "unit AST Parser" where
  "id_parser = Parser_map ID (\<lambda>x. Id_node () x)"

definition NOT :: "(unit AST \<Rightarrow> unit AST) Parser" where
  "NOT = Parser_map (token (literal ''!'')) (\<lambda>_. Not_node ())"

definition EQUAL :: "(unit AST \<Rightarrow> unit AST \<Rightarrow> unit AST) Parser" where
  "EQUAL = Parser_map (token (literal ''=='')) (\<lambda>_. Equal ())"

definition NOT_EQUAL :: "(unit AST \<Rightarrow> unit AST \<Rightarrow> unit AST) Parser" where
  "NOT_EQUAL = Parser_map (token (literal ''!='')) (\<lambda>_. NotEqual ())"

definition PLUS :: "(unit AST \<Rightarrow> unit AST \<Rightarrow> unit AST) Parser" where
  "PLUS = Parser_map (token (literal ''+'')) (\<lambda>_. Add ())"

definition MINUS :: "(unit AST \<Rightarrow> unit AST \<Rightarrow> unit AST) Parser" where
  "MINUS = Parser_map (token (literal ''-'')) (\<lambda>_. Subtract ())"

definition STAR :: "(unit AST \<Rightarrow> unit AST \<Rightarrow> unit AST) Parser" where
  "STAR = Parser_map (token (literal ''*'')) (\<lambda>_. Multiply ())"

definition SLASH :: "(unit AST \<Rightarrow> unit AST \<Rightarrow> unit AST) Parser" where
  "SLASH = Parser_map (token (literal ''/'')) (\<lambda>_. Divide ())"

text \<open>
  The rules that refer to \<^verbatim>\<open>expression\<close> or \<^verbatim>\<open>statement\<close>, whose \<^verbatim>\<open>parse\<close> is assigned
  after the rules are built, take that parser as an argument.
\<close>

definition args :: "unit AST Parser \<Rightarrow> unit AST list Parser" where
  "args expression =
     Parser_or
       (Parser_bind expression (\<lambda>arg.
        Parser_bind (Parser_zeroOrMore (Parser_and COMMA expression)) (\<lambda>args.
        Parser_constant (arg # args))))
       (Parser_constant [])"

definition call :: "unit AST Parser \<Rightarrow> unit AST Parser" where
  "call expression =
     Parser_bind ID (\<lambda>callee.
     Parser_and LEFT_PAREN
       (Parser_bind (args expression) (\<lambda>args.
        Parser_and RIGHT_PAREN (Parser_constant (Call () callee args)))))"

definition atom :: "unit AST Parser \<Rightarrow> unit AST Parser" where
  "atom expression =
     Parser_or (Parser_or (Parser_or (call expression) id_parser) NUMBER)
       (Parser_bind (Parser_and LEFT_PAREN expression) (\<lambda>e.
        Parser_and RIGHT_PAREN (Parser_constant e)))"

definition unary :: "unit AST Parser \<Rightarrow> unit AST Parser" where
  "unary expression =
     Parser_bind (Parser_maybe NOT) (\<lambda>not.
     Parser_map (atom expression) (\<lambda>term.
       case not of Some constructor \<Rightarrow> constructor term | None \<Rightarrow> term))"

definition infix_parser ::
  "(unit AST \<Rightarrow> unit AST \<Rightarrow> unit AST) Parser \<Rightarrow> unit AST Parser \<Rightarrow> unit AST Parser" where
  "infix_parser operatorParser termParser =
     Parser_bind termParser (\<lambda>term.
     Parser_map
       (Parser_zeroOrMore
          (Parser_bind operatorParser (\<lambda>operator.
           Parser_bind termParser (\<lambda>term. Parser_constant (operator, term)))))
       (\<lambda>operatorTerms. foldl (\<lambda>left (operator, term). operator left term) term operatorTerms))"

definition product_parser :: "unit AST Parser \<Rightarrow> unit AST Parser" where
  "product_parser expression = infix_parser (Parser_or STAR SLASH) (unary expression)"

definition sum_parser :: "unit AST Parser \<Rightarrow> unit AST Parser" where
  "sum_parser expression = infix_parser (Parser_or PLUS MINUS) (product_parser expression)"

definition comparison :: "unit AST Parser \<Rightarrow> unit AST Parser" where
  "comparison expression = infix_parser (Parser_or EQUAL NOT_EQUAL) (sum_parser expression)"

definition returnStatement :: "unit AST Parser \<Rightarrow> unit AST Parser" where
  "returnStatement expression =
     Parser_bind (Parser_and RETURN expression) (\<lambda>term.
     Parser_and SEMICOLON (Parser_constant (Return () term)))"

definition expressionStatement :: "unit AST Parser \<Rightarrow> unit AST Parser" where
  "expressionStatement expression =
     Parser_bind expression (\<lambda>term. Parser_and SEMICOLON (Parser_constant term))"

definition ifStatement :: "unit AST Parser \<Rightarrow> unit AST Parser \<Rightarrow> unit AST Parser" where
  "ifStatement expression statement =
     Parser_bind (Parser_and (Parser_and IF LEFT_PAREN) expression) (\<lambda>conditional.
     Parser_bind (Parser_and RIGHT_PAREN statement) (\<lambda>consequence.
     Parser_bind (Parser_and ELSE statement) (\<lambda>alternative.
     Parser_constant (If_node () conditional consequence alternative))))"

definition whileStatement :: "unit AST Parser \<Rightarrow> unit AST Parser \<Rightarrow> unit AST Parser" where
  "whileStatement expression statement =
     Parser_bind (Parser_and (Parser_and WHILE LEFT_PAREN) expression) (\<lambda>conditional.
     Parser_bind (Parser_and RIGHT_PAREN statement) (\<lambda>body.
     Parser_constant (While () conditional body)))"

definition varStatement :: "unit AST Parser \<Rightarrow> unit AST Parser" where
  "varStatement expression =
     Parser_bind (Parser_and VAR ID) (\<lambda>name.
     Parser_bind (Parser_and ASSIGN expression) (\<lambda>val.
     Parser_and SEMICOLON (Parser_constant (Var () name val))))"

definition assignmentStatement :: "unit AST Parser \<Rightarrow> unit AST Parser" where
  "assignmentStatement expression =
     Parser_bind ID (\<lambda>name.
     Parser_bind (Parser_and ASSIGN expression) (\<lambda>val.
     Parser_and SEMICOLON (Parser_constant (Assign () name val))))"

definition blockStatement :: "unit AST Parser \<Rightarrow> unit AST Parser" where
  "blockStatement statement =
     Parser_bind (Parser_and LEFT_BRACE (Parser_zeroOrMore statement)) (\<lambda>statements.
     Parser_and RIGHT_BRACE (Parser_constant (Block () statements)))"

definition parameters :: "string list Parser" where
  "parameters =
     Parser_or
       (Parser_bind ID (\<lambda>param.
        Parser_bind (Parser_zeroOrMore (Parser_and COMMA ID)) (\<lambda>params.
        Parser_constant (param # params))))
       (Parser_constant [])"

definition functionDecl :: "unit AST Parser \<Rightarrow> unit AST Parser" where
  "functionDecl statement =
     Parser_and FUNCTION
       (Parser_bind ID (\<lambda>name.
        Parser_bind (Parser_and LEFT_PAREN parameters) (\<lambda>parameters.
        Parser_bind (Parser_and RIGHT_PAREN (blockStatement statement)) (\<lambda>body.
        Parser_constant (Function () name parameters body)))))"

definition statementParser :: "unit AST Parser \<Rightarrow> unit AST Parser \<Rightarrow> unit AST Parser" where
  "statementParser expression statement =
     Parser_or (Parser_or (Parser_or (Parser_or (Parser_or (Parser_or
       (returnStatement expression)
       (ifStatement expression statement))
       (whileStatement expression statement))
       (varStatement expression))
       (assignmentStatement expression))
       (blockStatement statement))
       (expressionStatement expression)"

text \<open>
  \<^verbatim>\<open>expression.parse = comparison.parse\<close> and \<^verbatim>\<open>statement.parse = statementParser.parse\<close>
  tie the two knots. \<open>expression n\<close> and \<open>statement n\<close> are these parsers with the knots
  unrolled \<open>n\<close> times: a call that nests deeper does not return in the model.
\<close>

fun expression :: "nat \<Rightarrow> unit AST Parser" where
  "expression 0 = (\<lambda>source. None)"
| "expression (Suc n) = comparison (expression n)"

fun statement :: "nat \<Rightarrow> unit AST Parser" where
  "statement 0 = (\<lambda>source. None)"
| "statement (Suc n) = statementParser (expression (Suc n)) (statement n)"

definition parser :: "nat \<Rightarrow> unit AST Parser" where
  "parser n =
     Parser_map (Parser_and ignored (Parser_zeroOrMore (functionDecl (statement n))))
       (\<lambda>functions. Module () functions)"

section \<open>Properties of parsers\<close>

text \<open>
  What a parser may be asked to guarantee about its successful parses: the source it
  returns has the string it was given (\<open>keeps_string\<close>), its index is not past the end of
  its string (\<open>within_string\<close>), and its index is greater than the one it was given
  (\<open>strictly_advances\<close>). \<open>returns_always\<close>: every call returns a result or \<^verbatim>\<open>null\<close>.
\<close>

definition keeps_string :: "'a Parser \<Rightarrow> bool" where
  "keeps_string p \<longleftrightarrow>
     (\<forall>source v rest. p source = Some (ParseResult v rest) \<longrightarrow> string rest = string source)"




text \<open>
  \<open>remaining\<close> is the number of characters from the index of a source to the end of its
  string. A parser \<open>parses_below b\<close> when, on every source whose index is inside its string
  with fewer than \<open>b\<close> characters remaining, it returns \<^verbatim>\<open>null\<close> or a result whose source
  has the same string and an index inside it that is not smaller; it \<open>consumes_below b\<close>
  when the index of such a result is greater.
\<close>

definition remaining :: "Source \<Rightarrow> nat" where
  "remaining source = length (string source) - index source"

definition parses_below :: "nat \<Rightarrow> 'a Parser \<Rightarrow> bool" where
  "parses_below b p \<longleftrightarrow>
     (\<forall>source. index source \<le> length (string source) \<and> remaining source < b \<longrightarrow>
        p source = Some Null \<or>
        (\<exists>v rest. p source = Some (ParseResult v rest) \<and> string rest = string source \<and>
           index source \<le> index rest \<and> index rest \<le> length (string rest)))"

definition consumes_below :: "nat \<Rightarrow> 'a Parser \<Rightarrow> bool" where
  "consumes_below b p \<longleftrightarrow>
     (\<forall>source. index source \<le> length (string source) \<and> remaining source < b \<longrightarrow>
        p source = Some Null \<or>
        (\<exists>v rest. p source = Some (ParseResult v rest) \<and> string rest = string source \<and>
           index source < index rest \<and> index rest \<le> length (string rest)))"

text \<open>
  A parser \<open>q\<close> \<open>extends\<close> a parser \<open>p\<close> when it returns whatever \<open>p\<close> returns, and
  \<open>char_at s i c\<close> when the string \<open>s\<close> has the character \<open>c\<close> at \<open>i\<close>.
\<close>

definition extends :: "'a Parser \<Rightarrow> 'a Parser \<Rightarrow> bool" where
  "extends q p \<longleftrightarrow> (\<forall>source r. p source = Some r \<longrightarrow> q source = Some r)"

definition char_at :: "string \<Rightarrow> nat \<Rightarrow> char \<Rightarrow> bool" where
  "char_at s i c \<longleftrightarrow> i < length s \<and> s ! i = c"

text \<open>The six keyword tokens with their words.\<close>

definition keyword_tokens :: "(string Parser \<times> string) list" where
  "keyword_tokens =
     [(FUNCTION, ''function''), (IF, ''if''), (ELSE, ''else''), (RETURN, ''return''),
      (VAR, ''var''), (WHILE, ''while'')]"

section \<open>Structural equality\<close>

lemma every_same_refs:
  "length xs = length ys \<Longrightarrow> every_same xs ys = (map ref_of xs = map ref_of ys)"
  by (induction xs ys rule: every_same.induct) (auto simp: same_object_def)

lemma Call_equals_iff:
  "equals (Call r callee xs) (Call r' callee' ys) =
     (callee = callee' \<and> map ref_of xs = map ref_of ys)"
  using every_same_refs [of xs ys] map_eq_imp_length_eq [of ref_of xs ref_of ys]
  by auto

text \<open>
  C1. \<^verbatim>\<open>new Call("f", [new Number(1)])\<close> built twice: four objects, references 0 to 3,
  the two trees of one shape. \<^verbatim>\<open>equals\<close> answers false, because \<^verbatim>\<open>Call.equals\<close>
  compares the arguments by identity where \<^verbatim>\<open>Block.equals\<close> compares them with
  \<^verbatim>\<open>equals\<close>.
\<close>

theorem Call_equals_independent_copies:
  "shape (Call (0::nat) ''f'' [Number 1 1]) = shape (Call (2::nat) ''f'' [Number 3 1]) \<and>
   \<not> equals (Call (0::nat) ''f'' [Number 1 1]) (Call 2 ''f'' [Number 3 1]) \<and>
   equals (Block (0::nat) [Number 1 1]) (Block 2 [Number 3 1])"
  by (simp add: shape_def same_object_def)

section \<open>The walk of a function body\<close>

lemma no_functions_simps [simp]:
  "no_functions (Number r i)"
  "no_functions (Id_node r x)"
  "no_functions (Not_node r t) = no_functions t"
  "no_functions (Equal r a b) = (no_functions a \<and> no_functions b)"
  "no_functions (NotEqual r a b) = (no_functions a \<and> no_functions b)"
  "no_functions (Add r a b) = (no_functions a \<and> no_functions b)"
  "no_functions (Subtract r a b) = (no_functions a \<and> no_functions b)"
  "no_functions (Multiply r a b) = (no_functions a \<and> no_functions b)"
  "no_functions (Divide r a b) = (no_functions a \<and> no_functions b)"
  "no_functions (Call r callee xs) = list_all no_functions xs"
  "no_functions (Return r t) = no_functions t"
  "no_functions (Block r ss) = list_all no_functions ss"
  "no_functions (If_node r c t e) = (no_functions c \<and> no_functions t \<and> no_functions e)"
  "\<not> no_functions (Function r nm ps bd)"
  "no_functions (Var r nm v) = no_functions v"
  "no_functions (Assign r nm v) = no_functions v"
  "no_functions (While r c bd) = (no_functions c \<and> no_functions bd)"
  "\<not> no_functions (Module r fs)"
  by (auto simp: no_functions_def list_all_iff)

lemma on_currentFrame_Some:
  "currentFrame s \<noteq> None \<Longrightarrow>
   on_currentFrame m s = and_then (m (the (currentFrame s))) (\<lambda>fr'. Inr (s\<lparr>currentFrame := Some fr'\<rparr>))"
  by (auto simp add: on_currentFrame_def)

lemma analysis_visit_frame:
  "no_functions n \<Longrightarrow> currentFrame s \<noteq> None \<Longrightarrow>
     analysis_visit n s =
       and_then (frame_visit n (the (currentFrame s))) (\<lambda>fr'. Inr (s\<lparr>currentFrame := Some fr'\<rparr>))"
  "list_all no_functions ns \<Longrightarrow> currentFrame s \<noteq> None \<Longrightarrow>
     analysis_forEach ns s =
       and_then (frame_forEach ns (the (currentFrame s))) (\<lambda>fr'. Inr (s\<lparr>currentFrame := Some fr'\<rparr>))"
proof (induction n s and ns s rule: analysis_visit_analysis_forEach.induct)
qed (auto simp: and_then_def on_currentFrame_Some split: sum.splits)

lemma frame_visit_unresolved_Inr:
  "frame_visit n fr = Inr fr' \<Longrightarrow> unresolved n (dom (nameMap fr)) = Inr (dom (nameMap fr'))"
  "frame_forEach ns fr = Inr fr' \<Longrightarrow> unresolved_each ns (dom (nameMap fr)) = Inr (dom (nameMap fr'))"
proof (induction n fr and ns fr arbitrary: fr' and fr' rule: frame_visit_frame_forEach.induct)
qed (auto simp: and_then_def mapLocal_def addLocal_def split: sum.splits option.splits)

lemma frame_visit_unresolved_Inl:
  "frame_visit n fr = Inl e \<Longrightarrow>
     \<exists>x. e = Error (''Undefined variable '' @ x) \<and> unresolved n (dom (nameMap fr)) = Inl x"
  "frame_forEach ns fr = Inl e \<Longrightarrow>
     \<exists>x. e = Error (''Undefined variable '' @ x) \<and> unresolved_each ns (dom (nameMap fr)) = Inl x"
proof (induction n fr and ns fr arbitrary: e and e rule: frame_visit_frame_forEach.induct)
qed (fastforce simp: and_then_def mapLocal_def addLocal_def frame_visit_unresolved_Inr split: sum.splits option.splits)+


lemma references_keys: "q \<in> set (references_in x ns) \<Longrightarrow> q \<in> set (keys_in ns)"
  by (auto simp: references_in_def keys_in_def)

lemma keys_in_simps [simp]:
  "keys_in [] = []"
  "keys_in (xs @ ys) = keys_in xs @ keys_in ys"
  "keys_in (m # ms) = (if is_Var m \<or> is_reference m then ref_of m # keys_in ms else keys_in ms)"
  by (simp_all add: keys_in_def)

lemma references_in_simps [simp]:
  "references_in x [] = []"
  "references_in x (xs @ ys) = references_in x xs @ references_in x ys"
  "references_in x (m # ms) =
     (if is_reference m \<and> name_of m = x then ref_of m # references_in x ms
      else references_in x ms)"
  by (simp_all add: references_in_def)

lemma declared_in_simps [simp]:
  "declared_in [] = []"
  "declared_in (xs @ ys) = declared_in xs @ declared_in ys"
  "declared_in (m # ms) = (if is_Var m then name_of m # declared_in ms else declared_in ms)"
  by (simp_all add: declared_in_def)

lemma subnodes_each_simps [simp]:
  "subnodes_each [] = []"
  "subnodes_each (n # ns) = subnodes n @ subnodes_each ns"
  by (simp_all add: subnodes_each_def)

lemma subnodes_each_fold [simp]: "concat (map subnodes ns) = subnodes_each ns"
  by (simp add: subnodes_each_def)

lemma keeps_Inr: "keeps x k Inr []"
  by (simp add: keeps_def)

lemma keeps_seq:
  assumes "keeps x k f A" "keeps x k g B"
  shows "keeps x k (\<lambda>fr. and_then (f fr) g) (A @ B)"
  unfolding keeps_def
proof (intro allI impI, elim conjE)
  fix fr fr'
  assume run: "and_then (f fr) g = Inr fr'" and x: "nameMap fr x = Some k"
    and nd: "x \<notin> set (declared_in (A @ B))" and d: "distinct (keys_in (A @ B))"
  from run obtain fr1 where 1: "f fr = Inr fr1" and 2: "g fr1 = Inr fr'"
    by (auto simp: and_then_def split: sum.splits)
  have dA: "distinct (keys_in A)" and dB: "distinct (keys_in B)"
    and disj: "set (keys_in A) \<inter> set (keys_in B) = {}"
    using d by auto
  have a: "nameMap fr1 x = Some k"
    "\<And>q. q \<in> set (references_in x A) \<or> (q \<notin> set (keys_in A) \<and> idMap fr q = Some k)
       \<Longrightarrow> idMap fr1 q = Some k"
    using assms(1) 1 x nd dA unfolding keeps_def by auto
  have b: "nameMap fr' x = Some k"
    "\<And>q. q \<in> set (references_in x B) \<or> (q \<notin> set (keys_in B) \<and> idMap fr1 q = Some k)
       \<Longrightarrow> idMap fr' q = Some k"
    using assms(2) 2 a(1) nd dB unfolding keeps_def by auto
  show "nameMap fr' x = Some k \<and>
    (\<forall>q. q \<in> set (references_in x (A @ B)) \<or> (q \<notin> set (keys_in (A @ B)) \<and> idMap fr q = Some k)
       \<longrightarrow> idMap fr' q = Some k)"
  proof (intro conjI allI impI)
    show "nameMap fr' x = Some k" by (rule b(1))
  next
    fix q
    assume q: "q \<in> set (references_in x (A @ B)) \<or>
      (q \<notin> set (keys_in (A @ B)) \<and> idMap fr q = Some k)"
    show "idMap fr' q = Some k"
    proof (cases "q \<in> set (references_in x B)")
      case True
      then show ?thesis using b(2) by blast
    next
      case False
      have "idMap fr1 q = Some k \<and> q \<notin> set (keys_in B)"
      proof (cases "q \<in> set (references_in x A)")
        case True
        then have "q \<in> set (keys_in A)" by (rule references_keys)
        with disj have "q \<notin> set (keys_in B)" by blast
        with True show ?thesis using a(2) by blast
      next
        case nA: False
        with False q have "q \<notin> set (keys_in (A @ B))" "idMap fr q = Some k" by auto
        then show ?thesis using a(2) by auto
      qed
      then show ?thesis using b(2) by blast
    qed
  qed
qed

lemma keeps_cong:
  assumes "keeps x k f A"
    and "set (declared_in B) = set (declared_in A)"
    and "distinct (keys_in B) = distinct (keys_in A)"
    and "set (keys_in B) = set (keys_in A)"
    and "set (references_in x B) = set (references_in x A)"
  shows "keeps x k f B"
  using assms unfolding keeps_def by simp

lemma keeps_skip:
  assumes "keeps x k f A" "\<not> is_Var m" "\<not> is_reference m"
  shows "keeps x k f (m # A)"
  by (rule keeps_cong [OF assms(1)]) (simp_all add: assms(2,3))

lemma keeps_mapLocal_single:
  assumes "is_reference m"
  shows "keeps x k (mapLocal m) [m]"
  unfolding keeps_def
proof (intro allI impI, elim conjE)
  fix fr fr'
  assume run: "mapLocal m fr = Inr fr'" and x: "nameMap fr x = Some k"
  from run obtain i where i: "nameMap fr (name_of m) = Some i"
    and fr': "fr' = fr\<lparr>idMap := (idMap fr)(ref_of m \<mapsto> i)\<rparr>"
    by (auto simp: mapLocal_def split: option.splits)
  show "nameMap fr' x = Some k \<and>
    (\<forall>q. q \<in> set (references_in x [m]) \<or> (q \<notin> set (keys_in [m]) \<and> idMap fr q = Some k)
       \<longrightarrow> idMap fr' q = Some k)"
    using assms x i by (auto simp: fr')
qed

lemma keeps_addLocal_single:
  assumes "is_Var m"
  shows "keeps x k (addLocal m) [m]"
  unfolding keeps_def
proof (intro allI impI, elim conjE)
  fix fr fr'
  assume run: "addLocal m fr = Inr fr'" and x: "nameMap fr x = Some k"
    and nd: "x \<notin> set (declared_in [m])"
  from run have fr': "fr' = fr\<lparr>nameMap := (nameMap fr)(name_of m \<mapsto> frameSize fr),
      idMap := (idMap fr)(ref_of m \<mapsto> frameSize fr), frameSize := frameSize fr + 1\<rparr>"
    by (auto simp: addLocal_def)
  have ne: "name_of m \<noteq> x" using nd assms by auto
  have nr: "\<not> is_reference m" using assms by (cases m) auto
  show "nameMap fr' x = Some k \<and>
    (\<forall>q. q \<in> set (references_in x [m]) \<or> (q \<notin> set (keys_in [m]) \<and> idMap fr q = Some k)
       \<longrightarrow> idMap fr' q = Some k)"
    using assms x ne nr by (simp add: fr')
qed

lemma keeps_after:
  assumes "keeps x k f A" "keeps x k g [m]"
  shows "keeps x k (\<lambda>fr. and_then (f fr) g) (m # A)"
proof (rule keeps_cong [OF keeps_seq [OF assms]])
  show "set (declared_in (m # A)) = set (declared_in (A @ [m]))" by auto
  show "distinct (keys_in (m # A)) = distinct (keys_in (A @ [m]))" by auto
  show "set (keys_in (m # A)) = set (keys_in (A @ [m]))" by auto
  show "set (references_in x (m # A)) = set (references_in x (A @ [m]))" by auto
qed

lemma frame_visit_fun:
  "frame_visit (Number r i) = Inr"
  "frame_visit (Id_node r x) = mapLocal (Id_node r x)"
  "frame_visit (Not_node r t) = frame_visit t"
  "frame_visit (Equal r a b) = (\<lambda>fr. and_then (frame_visit a fr) (frame_visit b))"
  "frame_visit (NotEqual r a b) = (\<lambda>fr. and_then (frame_visit a fr) (frame_visit b))"
  "frame_visit (Add r a b) = (\<lambda>fr. and_then (frame_visit a fr) (frame_visit b))"
  "frame_visit (Subtract r a b) = (\<lambda>fr. and_then (frame_visit a fr) (frame_visit b))"
  "frame_visit (Multiply r a b) = (\<lambda>fr. and_then (frame_visit a fr) (frame_visit b))"
  "frame_visit (Divide r a b) = (\<lambda>fr. and_then (frame_visit a fr) (frame_visit b))"
  "frame_visit (Call r callee xs) = frame_forEach xs"
  "frame_visit (Return r t) = frame_visit t"
  "frame_visit (Block r ss) = frame_forEach ss"
  "frame_visit (If_node r c t e) =
     (\<lambda>fr. and_then (frame_visit c fr) (\<lambda>fr1. and_then (frame_visit e fr1) (frame_visit t)))"
  "frame_visit (Var r x v) = (\<lambda>fr. and_then (frame_visit v fr) (addLocal (Var r x v)))"
  "frame_visit (Assign r x v) = (\<lambda>fr. and_then (frame_visit v fr) (mapLocal (Assign r x v)))"
  "frame_visit (While r c bd) = (\<lambda>fr. and_then (frame_visit c fr) (frame_visit bd))"
  "frame_forEach [] = Inr"
  "frame_forEach (n # ns) = (\<lambda>fr. and_then (frame_visit n fr) (frame_forEach ns))"
  by (rule ext, simp)+

lemma keeps_forEach:
  assumes "\<And>a. a \<in> set ns \<Longrightarrow> no_functions a \<Longrightarrow> keeps x k (frame_visit a) (subnodes a)"
    and "list_all no_functions ns"
  shows "keeps x k (frame_forEach ns) (subnodes_each ns)"
  using assms
proof (induction ns)
  case Nil
  show ?case by (simp add: frame_visit_fun keeps_Inr)
next
  case (Cons n ns)
  have 1: "keeps x k (frame_visit n) (subnodes n)" using Cons.prems by simp
  have 2: "keeps x k (frame_forEach ns) (subnodes_each ns)"
    using Cons.IH Cons.prems by simp
  show ?case using keeps_seq [OF 1 2] by (simp add: frame_visit_fun)
qed

lemma keeps_binary:
  assumes "keeps x k (frame_visit a) (subnodes a)" "keeps x k (frame_visit b) (subnodes b)"
    and "\<not> is_Var m" "\<not> is_reference m"
  shows "keeps x k (\<lambda>fr. and_then (frame_visit a fr) (frame_visit b)) (m # subnodes a @ subnodes b)"
  by (rule keeps_skip [OF keeps_seq [OF assms(1,2)] assms(3,4)])

lemma keeps_visit:
  "no_functions n \<Longrightarrow> keeps x k (frame_visit n) (subnodes n)"
proof (induction n)
  case (Number r i)
  show ?case by (simp add: frame_visit_fun keeps_skip [OF keeps_Inr])
next
  case (Id_node r y)
  show ?case by (simp add: frame_visit_fun keeps_mapLocal_single)
next
  case (Not_node r t)
  then show ?case by (simp add: frame_visit_fun keeps_skip)
next
  case (Equal r a b)
  then show ?case by (simp add: frame_visit_fun keeps_binary)
next
  case (NotEqual r a b)
  then show ?case by (simp add: frame_visit_fun keeps_binary)
next
  case (Add r a b)
  then show ?case by (simp add: frame_visit_fun keeps_binary)
next
  case (Subtract r a b)
  then show ?case by (simp add: frame_visit_fun keeps_binary)
next
  case (Multiply r a b)
  then show ?case by (simp add: frame_visit_fun keeps_binary)
next
  case (Divide r a b)
  then show ?case by (simp add: frame_visit_fun keeps_binary)
next
  case (Call r callee args)
  then have "keeps x k (frame_forEach args) (subnodes_each args)"
    by (intro keeps_forEach) simp_all
  then show ?case by (simp add: frame_visit_fun keeps_skip)
next
  case (Return r t)
  then show ?case by (simp add: frame_visit_fun keeps_skip)
next
  case (Block r ss)
  then have "keeps x k (frame_forEach ss) (subnodes_each ss)"
    by (intro keeps_forEach) simp_all
  then show ?case by (simp add: frame_visit_fun keeps_skip)
next
  case (If_node r c t e)
  then have c: "keeps x k (frame_visit c) (subnodes c)"
    and t: "keeps x k (frame_visit t) (subnodes t)"
    and e: "keeps x k (frame_visit e) (subnodes e)" by simp_all
  have "keeps x k (frame_visit (If_node r c t e)) (subnodes c @ subnodes e @ subnodes t)"
    using keeps_seq [OF c keeps_seq [OF e t]] by (simp add: frame_visit_fun)
  then have "keeps x k (frame_visit (If_node r c t e)) (subnodes c @ subnodes t @ subnodes e)"
    by (rule keeps_cong) auto
  from keeps_skip [OF this, of "If_node r c t e"] show ?case by (simp add: frame_visit_fun)
next
  case (Function r nm ps bd)
  then show ?case by simp
next
  case (Var r y v)
  then have "keeps x k (frame_visit v) (subnodes v)" by simp
  from keeps_after [OF this keeps_addLocal_single [of "Var r y v"]]
  show ?case by (simp add: frame_visit_fun)
next
  case (Assign r y v)
  then have "keeps x k (frame_visit v) (subnodes v)" by simp
  from keeps_after [OF this keeps_mapLocal_single [of "Assign r y v"]]
  show ?case by (simp add: frame_visit_fun)
next
  case (While r c bd)
  then show ?case by (simp add: frame_visit_fun keeps_binary)
next
  case (Module r fs)
  then show ?case by simp
qed


lemma slot_kept:
  assumes "frame_forEach ns fr = Inr fr'" "list_all no_functions ns"
    and "nameMap fr x = Some k" "x \<notin> set (declared_in (subnodes_each ns))"
    and "distinct (keys_in (subnodes_each ns))"
  shows "nameMap fr' x = Some k \<and> (\<forall>q \<in> set (references_in x (subnodes_each ns)). idMap fr' q = Some k)"
proof -
  have "keeps x k (frame_forEach ns) (subnodes_each ns)"
    by (rule keeps_forEach) (simp_all add: keeps_visit assms(2))
  then show ?thesis using assms unfolding keeps_def by blast
qed


section \<open>Slot allocation and shadowing\<close>

lemma slots_below_new: "slots_below new_FunctionFrame"
  by (simp add: slots_below_def new_FunctionFrame_def)

lemma ran_upd_cases: "k \<in> ran (m(a \<mapsto> b)) \<Longrightarrow> k = b \<or> k \<in> ran m"
  by (auto simp: ran_def split: if_splits)

lemma slots_belowI:
  assumes "\<And>k. k \<in> ran (nameMap fr) \<Longrightarrow> k < frameSize fr"
    and "\<And>k. k \<in> ran (idMap fr) \<Longrightarrow> k < frameSize fr"
  shows "slots_below fr"
  using assms unfolding slots_below_def by blast

lemma slots_belowD:
  assumes "slots_below fr"
  shows "k \<in> ran (nameMap fr) \<Longrightarrow> k < frameSize fr"
    and "k \<in> ran (idMap fr) \<Longrightarrow> k < frameSize fr"
  using assms unfolding slots_below_def by blast+

lemma slots_below_addArgument:
  assumes "slots_below fr" "addArgument p fr = Inr fr'"
  shows "slots_below fr'"
proof -
  from assms(2) have fr': "fr' = fr\<lparr>nameMap := (nameMap fr)(p \<mapsto> frameSize fr),
      frameSize := frameSize fr + 1\<rparr>"
    by (simp add: addArgument_def split: if_splits)
  show ?thesis
  proof (rule slots_belowI)
    fix k assume "k \<in> ran (nameMap fr')"
    then have "k = frameSize fr \<or> k \<in> ran (nameMap fr)"
      by (simp add: fr') (erule ran_upd_cases)
    then show "k < frameSize fr'" using slots_belowD(1) [OF assms(1)] by (auto simp: fr' less_SucI)
  next
    fix k assume "k \<in> ran (idMap fr')"
    then show "k < frameSize fr'" using slots_belowD(2) [OF assms(1), of k] by (simp add: fr' less_SucI)
  qed
qed

lemma slots_below_addLocal:
  assumes "slots_below fr" "addLocal v fr = Inr fr'"
  shows "slots_below fr'"
proof -
  from assms(2) have fr': "fr' = fr\<lparr>nameMap := (nameMap fr)(name_of v \<mapsto> frameSize fr),
      idMap := (idMap fr)(ref_of v \<mapsto> frameSize fr), frameSize := frameSize fr + 1\<rparr>"
    by (simp add: addLocal_def)
  show ?thesis
  proof (rule slots_belowI)
    fix k assume "k \<in> ran (nameMap fr')"
    then have "k = frameSize fr \<or> k \<in> ran (nameMap fr)"
      by (simp add: fr') (erule ran_upd_cases)
    then show "k < frameSize fr'" using slots_belowD(1) [OF assms(1)] by (auto simp: fr' less_SucI)
  next
    fix k assume "k \<in> ran (idMap fr')"
    then have "k = frameSize fr \<or> k \<in> ran (idMap fr)"
      by (simp add: fr') (erule ran_upd_cases)
    then show "k < frameSize fr'" using slots_belowD(2) [OF assms(1)] by (auto simp: fr' less_SucI)
  qed
qed

lemma slots_below_mapLocal:
  assumes "slots_below fr" "mapLocal v fr = Inr fr'"
  shows "slots_below fr'"
proof -
  from assms(2) obtain i where i: "nameMap fr (name_of v) = Some i"
    and fr': "fr' = fr\<lparr>idMap := (idMap fr)(ref_of v \<mapsto> i)\<rparr>"
    by (auto simp: mapLocal_def split: option.splits)
  from i have "i \<in> ran (nameMap fr)" by (rule ranI)
  then have il: "i < frameSize fr" by (rule slots_belowD(1) [OF assms(1)])
  show ?thesis
  proof (rule slots_belowI)
    fix k assume "k \<in> ran (nameMap fr')"
    then show "k < frameSize fr'" using slots_belowD(1) [OF assms(1), of k] by (simp add: fr')
  next
    fix k assume "k \<in> ran (idMap fr')"
    then have "k = i \<or> k \<in> ran (idMap fr)"
      by (simp add: fr') (erule ran_upd_cases)
    then show "k < frameSize fr'" using slots_belowD(2) [OF assms(1)] il by (auto simp: fr')
  qed
qed


lemma slots_below_frame_visit:
  "frame_visit n fr = Inr fr' \<Longrightarrow> slots_below fr \<Longrightarrow> slots_below fr'"
  "frame_forEach ns fr = Inr fr' \<Longrightarrow> slots_below fr \<Longrightarrow> slots_below fr'"
proof (induction n fr and ns fr arbitrary: fr' and fr' rule: frame_visit_frame_forEach.induct)
  case (2 r x fr)
  then show ?case by (simp add: slots_below_mapLocal)
next
  case (13 r c t e fr)
  from "13.prems"(1) obtain fr1 fr2 where
    "frame_visit c fr = Inr fr1" "frame_visit e fr1 = Inr fr2" "frame_visit t fr2 = Inr fr'"
    by (auto simp: and_then_def split: sum.splits)
  then show ?case using "13.IH" "13.prems"(2) by blast
next
  case (15 r x v fr)
  from "15.prems"(1) obtain fr1 where
    "frame_visit v fr = Inr fr1" "addLocal (Var r x v) fr1 = Inr fr'"
    by (auto simp: and_then_def split: sum.splits)
  then show ?case using "15.IH" "15.prems"(2) slots_below_addLocal by blast
next
  case (16 r x v fr)
  from "16.prems"(1) obtain fr1 where
    "frame_visit v fr = Inr fr1" "mapLocal (Assign r x v) fr1 = Inr fr'"
    by (auto simp: and_then_def split: sum.splits)
  then show ?case using "16.IH" "16.prems"(2) slots_below_mapLocal by blast
qed (auto simp: and_then_def split: sum.splits)


text \<open>
  What holds along the walk. A \<^verbatim>\<open>Var\<close> node \<open>Var r x init\<close> met by the walk inside a function (the current
  frame is \<open>fr\<close>, whose slots are all below its \<^verbatim>\<open>frameSize\<close>): the initializer is
  visited first, in the state as it is before the declaration, and leaves a frame
  \<open>fr0\<close>; the declaration then takes slot \<open>frameSize fr0\<close>, which no name and no node
  has so far, binds \<open>x\<close> to it in the flat \<^verbatim>\<open>#nameMap\<close> (whatever \<open>x\<close> was bound to),
  records it for the node \<open>r\<close> and increments \<^verbatim>\<open>frameSize\<close>. Whatever the walk visits
  afterwards in that function (\<open>rest\<close>), as long as \<open>x\<close> is not declared once more,
  \<open>x\<close> stays bound to that slot and every \<^verbatim>\<open>Id\<close> and \<^verbatim>\<open>Assign\<close> naming \<open>x\<close> is
  resolved to it.
\<close>

lemma VarDecl_slot_along_the_walk:
  assumes decl: "analysis_visit (Var r x init) s = Inr s1"
    and init: "no_functions init"
    and cur: "currentFrame s = Some fr"
    and inv: "slots_below fr"
    and rest: "analysis_forEach rest s1 = Inr s2"
    and nf: "list_all no_functions rest"
    and nd: "x \<notin> set (declared_in (subnodes_each rest))"
    and dk: "distinct (keys_in (subnodes_each rest))"
  shows "\<exists>fr0 fr2.
      analysis_visit init s = Inr (s\<lparr>currentFrame := Some fr0\<rparr>) \<and>
      s1 = s\<lparr>currentFrame := Some (fr0\<lparr>nameMap := (nameMap fr0)(x \<mapsto> frameSize fr0),
                                        idMap := (idMap fr0)(r \<mapsto> frameSize fr0),
                                        frameSize := frameSize fr0 + 1\<rparr>)\<rparr> \<and>
      frameSize fr0 \<notin> ran (nameMap fr0) \<and> frameSize fr0 \<notin> ran (idMap fr0) \<and>
      currentFrame s2 = Some fr2 \<and> nameMap fr2 x = Some (frameSize fr0) \<and>
      (\<forall>q \<in> set (references_in x (subnodes_each rest)). idMap fr2 q = Some (frameSize fr0))"
proof -
  have ne: "currentFrame s \<noteq> None" using cur by simp
  have vi: "analysis_visit init s =
      and_then (frame_visit init fr) (\<lambda>fr'. Inr (s\<lparr>currentFrame := Some fr'\<rparr>))"
    using analysis_visit_frame(1) [OF init ne] cur by simp
  from decl obtain s0 where s0: "analysis_visit init s = Inr s0"
    and al: "on_currentFrame (addLocal (Var r x init)) s0 = Inr s1"
    by (auto simp: and_then_def split: sum.splits)
  from s0 vi obtain fr0 where fr0: "frame_visit init fr = Inr fr0"
    and s0': "s0 = s\<lparr>currentFrame := Some fr0\<rparr>"
    by (auto simp: and_then_def split: sum.splits)
  define fr1 where "fr1 = fr0\<lparr>nameMap := (nameMap fr0)(x \<mapsto> frameSize fr0),
      idMap := (idMap fr0)(r \<mapsto> frameSize fr0), frameSize := frameSize fr0 + 1\<rparr>"
  have s1: "s1 = s\<lparr>currentFrame := Some fr1\<rparr>"
    using al by (simp add: s0' on_currentFrame_def addLocal_def and_then_def fr1_def)
  have inv0: "slots_below fr0" by (rule slots_below_frame_visit(1) [OF fr0 inv])
  have fresh: "frameSize fr0 \<notin> ran (nameMap fr0)" "frameSize fr0 \<notin> ran (idMap fr0)"
    using slots_belowD [OF inv0, of "frameSize fr0"] by auto
  have ne1: "currentFrame s1 \<noteq> None" by (simp add: s1)
  have "analysis_forEach rest s1 =
      and_then (frame_forEach rest fr1) (\<lambda>fr'. Inr (s1\<lparr>currentFrame := Some fr'\<rparr>))"
    using analysis_visit_frame(2) [OF nf ne1] by (simp add: s1)
  with rest obtain fr2 where fr2: "frame_forEach rest fr1 = Inr fr2"
    and s2: "s2 = s1\<lparr>currentFrame := Some fr2\<rparr>"
    by (auto simp: and_then_def split: sum.splits)
  have bound: "nameMap fr1 x = Some (frameSize fr0)" by (simp add: fr1_def)
  note kept = slot_kept [OF fr2 nf bound nd dk]
  show ?thesis
    apply (rule exI [of _ fr0], rule exI [of _ fr2])
    using s0 s0' s1 fresh kept by (simp add: s2 fr1_def)
qed


text \<open>
  The example of the specification, \<^verbatim>\<open>var x = 1; { var x = 2; } print(x);\<close>, from the
  inner declaration on: the outer \<open>x\<close> has slot 0, the inner one takes slot 1 and
  \<^verbatim>\<open>print(x)\<close> (node 6) resolves to slot 1.
\<close>

lemma VarDecl_slot_along_the_walk_example:
  "\<exists>s1 s2 fr2.
     analysis_visit (Var (3::nat) ''x'' (Number 4 2))
       \<lparr>currentFrame = Some \<lparr>idMap = [1 \<mapsto> 0], nameMap = [''x'' \<mapsto> 0], frameSize = 1\<rparr>,
        functionFrames = Map.empty\<rparr> = Inr s1 \<and>
     analysis_forEach [Call 5 ''print'' [Id_node 6 ''x'']] s1 = Inr s2 \<and>
     currentFrame s2 = Some fr2 \<and> nameMap fr2 ''x'' = Some 1 \<and> idMap fr2 6 = Some 1"
proof -
  let ?fr = "\<lparr>idMap = [1 \<mapsto> 0], nameMap = [''x'' \<mapsto> 0], frameSize = 1\<rparr> :: nat FunctionFrame"
  let ?s = "\<lparr>currentFrame = Some ?fr, functionFrames = Map.empty\<rparr>"
  let ?rest = "[Call 5 ''print'' [Id_node 6 ''x'']] :: nat AST list"
  have "\<exists>s1 s2. analysis_visit (Var 3 ''x'' (Number 4 2)) ?s = Inr s1 \<and>
      analysis_forEach ?rest s1 = Inr s2"
    by (simp add: and_then_def on_currentFrame_def addLocal_def mapLocal_def)
  then obtain s1 s2 where decl: "analysis_visit (Var 3 ''x'' (Number 4 2)) ?s = Inr s1"
    and rest: "analysis_forEach ?rest s1 = Inr s2" by blast
  have init: "no_functions (Number (4::nat) 2)" by simp
  have cur: "currentFrame ?s = Some ?fr" by simp
  have inv: "slots_below ?fr" by (auto simp: slots_below_def ran_def split: if_splits)
  have nf: "list_all no_functions ?rest" by simp
  have nd: "''x'' \<notin> set (declared_in (subnodes_each ?rest))" by simp
  have dk: "distinct (keys_in (subnodes_each ?rest))" by simp
  from VarDecl_slot_along_the_walk [OF decl init cur inv rest nf nd dk]
  obtain fr0 fr2 where 0: "analysis_visit (Number 4 2) ?s = Inr (?s\<lparr>currentFrame := Some fr0\<rparr>)"
    and 2: "currentFrame s2 = Some fr2" "nameMap fr2 ''x'' = Some (frameSize fr0)"
    and 3: "\<forall>q \<in> set (references_in ''x'' (subnodes_each ?rest)). idMap fr2 q = Some (frameSize fr0)"
    by blast
  from 0 have "fr0 = ?fr" by simp
  then have "frameSize fr0 = 1" by simp
  with 2 3 decl rest show ?thesis by auto
qed

section \<open>The order of the walk\<close>

lemmas analysis_defs = analyzeFrames_def new_FunctionFrameAnalysis_def and_then_def on_currentFrame_def
     addArgument_def addLocal_def mapLocal_def new_FunctionFrame_def

lemma addArguments_slots:
  assumes "currentFrame s = Some fr" "distinct ps" "set ps \<inter> dom (nameMap fr) = {}"
  shows "\<exists>fr'. addArguments ps s = Inr (s\<lparr>currentFrame := Some fr'\<rparr>) \<and>
     idMap fr' = idMap fr \<and> frameSize fr' = frameSize fr + length ps \<and>
     (\<forall>i < length ps. nameMap fr' (ps ! i) = Some (frameSize fr + i)) \<and>
     (\<forall>y. y \<notin> set ps \<longrightarrow> nameMap fr' y = nameMap fr y)"
  using assms
proof (induction ps arbitrary: s fr)
  case Nil
  then show ?case by (intro exI [of _ fr]) simp
next
  case (Cons p ps)
  let ?fr1 = "fr\<lparr>nameMap := (nameMap fr)(p \<mapsto> frameSize fr), frameSize := frameSize fr + 1\<rparr>"
  let ?s1 = "s\<lparr>currentFrame := Some ?fr1\<rparr>"
  have p: "nameMap fr p = None" using Cons.prems by auto
  have step: "on_currentFrame (addArgument p) s = Inr ?s1"
    using Cons.prems(1) p by (simp add: on_currentFrame_def addArgument_def and_then_def)
  have "\<exists>fr'. addArguments ps ?s1 = Inr (?s1\<lparr>currentFrame := Some fr'\<rparr>) \<and>
     idMap fr' = idMap ?fr1 \<and> frameSize fr' = frameSize ?fr1 + length ps \<and>
     (\<forall>i < length ps. nameMap fr' (ps ! i) = Some (frameSize ?fr1 + i)) \<and>
     (\<forall>y. y \<notin> set ps \<longrightarrow> nameMap fr' y = nameMap ?fr1 y)"
    by (rule Cons.IH) (use Cons.prems in \<open>auto simp: disjoint_iff domIff split: if_splits\<close>)
  then obtain fr' where fr': "addArguments ps ?s1 = Inr (?s1\<lparr>currentFrame := Some fr'\<rparr>)"
    "idMap fr' = idMap fr" "frameSize fr' = frameSize fr + 1 + length ps"
    "\<And>i. i < length ps \<Longrightarrow> nameMap fr' (ps ! i) = Some (frameSize fr + 1 + i)"
    "\<And>y. y \<notin> set ps \<Longrightarrow> nameMap fr' y = nameMap ?fr1 y"
    by auto
  have p0: "nameMap fr' p = Some (frameSize fr)" using fr'(5) [of p] Cons.prems(2) by simp
  show ?case
  proof (intro exI [of _ fr'] conjI allI impI)
    show "addArguments (p # ps) s = Inr (s\<lparr>currentFrame := Some fr'\<rparr>)"
      using step fr'(1) by (simp add: and_then_def)
    show "idMap fr' = idMap fr" by (rule fr'(2))
    show "frameSize fr' = frameSize fr + length (p # ps)" using fr'(3) by simp
  next
    fix i assume "i < length (p # ps)"
    then show "nameMap fr' ((p # ps) ! i) = Some (frameSize fr + i)"
      using p0 fr'(4) by (cases i) auto
  next
    fix y assume "y \<notin> set (p # ps)"
    then show "nameMap fr' y = nameMap fr y" using fr'(5) [of y] by simp
  qed
qed

text \<open>
  C2. The parameters do take the slots 0, 1, 2, ... in the order of their declaration
  (lemma \<open>addArguments_slots\<close>), but \<^verbatim>\<open>visitIf\<close> walks the alternative before the
  consequence. In \<^verbatim>\<open>function f(c) { if (c) { var x = 1; } else { var x = 2; } return x; }\<close>
  the \<^verbatim>\<open>var x\<close> of the alternative (node 9) gets slot 1, the one of the consequence
  (node 6) slot 2, and the \<^verbatim>\<open>x\<close> returned (node 12) is the consequence's. In
  \<^verbatim>\<open>function f(c) { if (c) var y = 1; else return y; }\<close> the \<^verbatim>\<open>y\<close> of the
  alternative is reached before the declaration in the consequence, and the analysis
  throws.
\<close>

theorem visitIf_visits_alternative_first:
  "(\<exists>F fr. analyzeFrames
      (Module (0::nat) [Function 1 ''f'' [''c'']
         (Block 2 [If_node 3 (Id_node 4 ''c'')
                     (Block 5 [Var 6 ''x'' (Number 7 1)])
                     (Block 8 [Var 9 ''x'' (Number 10 2)]),
                   Return 11 (Id_node 12 ''x'')])]) = Inr F \<and>
      F ''f'' = Some (Some fr) \<and>
      idMap fr 9 = Some 1 \<and> idMap fr 6 = Some 2 \<and> idMap fr 12 = Some 2) \<and>
   analyzeFrames
      (Module (0::nat) [Function 1 ''f'' [''c'']
         (If_node 2 (Id_node 3 ''c'')
            (Var 4 ''y'' (Number 5 1))
            (Return 6 (Id_node 7 ''y'')))]) = Inl (Error ''Undefined variable y'')"
  by (simp add: analysis_defs)


section \<open>Shadowing across the branches of an If\<close>

text \<open>
  \<^bold>\<open>C3.\<close> In \<^verbatim>\<open>function f(c) { var x = 1; if (c) { var x = 2; } else { print(x); } }\<close>
  the outer \<^verbatim>\<open>var x\<close> (node 3) takes slot 1, the next after the parameter, and the inner
  one (node 8) slot 2. The reference \<^verbatim>\<open>print(x)\<close> (node 12) stands after the inner
  declaration in the text, yet it is resolved to slot 1, the outer \<^verbatim>\<open>x\<close>: \<^verbatim>\<open>visitIf\<close>
  walks the alternative before the consequence. Where no \<^verbatim>\<open>If\<close> stands between, as in
  \<^verbatim>\<open>function g() { var x = 1; { var x = 2; } print(x); }\<close>, the reference (node 11) is
  resolved to the inner slot 1.
\<close>

theorem VarDecl_shadowing_lost_in_else_branch:
  "(\<exists>F fr. analyzeFrames
      (Module (0::nat) [Function 1 ''f'' [''c'']
         (Block 2 [Var 3 ''x'' (Number 4 1),
                   If_node 5 (Id_node 6 ''c'')
                     (Block 7 [Var 8 ''x'' (Number 9 2)])
                     (Block 10 [Call 11 ''print'' [Id_node 12 ''x'']])])]) = Inr F \<and>
      F ''f'' = Some (Some fr) \<and>
      idMap fr 3 = Some 1 \<and> idMap fr 8 = Some 2 \<and> idMap fr 12 = Some 1 \<and>
      frameSize fr = 3) \<and>
   (\<exists>F fr. analyzeFrames
      (Module (0::nat) [Function 1 ''g'' []
         (Block 2 [Var 3 ''x'' (Number 4 1),
                   Block 5 [Var 6 ''x'' (Number 7 2)],
                   Call 10 ''print'' [Id_node 11 ''x'']])]) = Inr F \<and>
      F ''g'' = Some (Some fr) \<and>
      idMap fr 3 = Some 0 \<and> idMap fr 6 = Some 1 \<and> idMap fr 11 = Some 1 \<and>
      frameSize fr = 2)"
  by (simp add: analysis_defs)

section \<open>The errors of the analysis\<close>

lemma duplicate_argument_None:
  "duplicate_argument seen ps = None \<longleftrightarrow> distinct ps \<and> set ps \<inter> seen = {}"
  by (induction ps arbitrary: seen) auto

lemma addArguments_duplicate:
  assumes "currentFrame s = Some fr" "duplicate_argument (dom (nameMap fr)) ps = Some p"
  shows "addArguments ps s = Inl (Error (''Duplicate definition of argument '' @ p))"
  using assms
proof (induction ps arbitrary: s fr)
  case Nil
  then show ?case by simp
next
  case (Cons q ps)
  show ?case
  proof (cases "q \<in> dom (nameMap fr)")
    case True
    then show ?thesis using Cons.prems
      by (auto simp: on_currentFrame_def addArgument_def and_then_def)
  next
    case False
    let ?fr1 = "fr\<lparr>nameMap := (nameMap fr)(q \<mapsto> frameSize fr), frameSize := frameSize fr + 1\<rparr>"
    let ?s1 = "s\<lparr>currentFrame := Some ?fr1\<rparr>"
    have step: "on_currentFrame (addArgument q) s = Inr ?s1"
      using Cons.prems(1) False by (simp add: on_currentFrame_def addArgument_def and_then_def domIff)
    have "addArguments ps ?s1 = Inl (Error (''Duplicate definition of argument '' @ p))"
    proof (rule Cons.IH [of ?s1 ?fr1])
      show "currentFrame ?s1 = Some ?fr1" by simp
      have "dom (nameMap ?fr1) = insert q (dom (nameMap fr))" by simp
      then show "duplicate_argument (dom (nameMap ?fr1)) ps = Some p"
        using Cons.prems(2) False by simp
    qed
    then show ?thesis using step by (simp add: and_then_def)
  qed
qed


lemma addArguments_fresh:
  assumes "duplicate_argument {} ps = None"
  shows "\<exists>fr'. addArguments ps (s\<lparr>currentFrame := Some new_FunctionFrame\<rparr>) =
           Inr (s\<lparr>currentFrame := Some fr'\<rparr>) \<and> dom (nameMap fr') = set ps"
proof -
  let ?s0 = "s\<lparr>currentFrame := Some new_FunctionFrame\<rparr>"
  have d: "distinct ps" using assms by (simp add: duplicate_argument_None)
  have "\<exists>fr'. addArguments ps ?s0 = Inr (?s0\<lparr>currentFrame := Some fr'\<rparr>) \<and>
     idMap fr' = idMap new_FunctionFrame \<and>
     frameSize fr' = frameSize new_FunctionFrame + length ps \<and>
     (\<forall>i < length ps. nameMap fr' (ps ! i) = Some (frameSize new_FunctionFrame + i)) \<and>
     (\<forall>y. y \<notin> set ps \<longrightarrow> nameMap fr' y = nameMap new_FunctionFrame y)"
    using addArguments_slots [of ?s0 new_FunctionFrame ps] d by (simp add: new_FunctionFrame_def)
  then obtain fr' where 1: "addArguments ps ?s0 = Inr (?s0\<lparr>currentFrame := Some fr'\<rparr>)"
    and 2: "\<And>i. i < length ps \<Longrightarrow> nameMap fr' (ps ! i) = Some (frameSize new_FunctionFrame + i)"
    and 3: "\<And>y. y \<notin> set ps \<Longrightarrow> nameMap fr' y = nameMap new_FunctionFrame y"
    by blast
  have "dom (nameMap fr') = set ps"
  proof (intro set_eqI iffI)
    fix y assume "y \<in> dom (nameMap fr')"
    then show "y \<in> set ps" using 3 [of y]
      by (cases "y \<in> set ps") (auto simp: new_FunctionFrame_def)
  next
    fix y assume "y \<in> set ps"
    then obtain i where "i < length ps" "ps ! i = y" by (auto simp: in_set_conv_nth)
    then show "y \<in> dom (nameMap fr')" using 2 [of i] by auto
  qed
  with 1 show ?thesis by auto
qed

lemma visit_function:
  assumes wf: "function_declaration f"
  shows "case function_error (dom (functionFrames s)) f of
           Some e \<Rightarrow> analysis_visit f s = Inl (Error (message e))
         | None \<Rightarrow> \<exists>fr. analysis_visit f s =
             Inr (s\<lparr>functionFrames := (functionFrames s)(name_of f \<mapsto> Some fr),
                     currentFrame := None\<rparr>)"
proof -
  from wf obtain r nm ps bd where f: "f = Function r nm ps bd" and bd: "no_functions bd"
    by (cases f) auto
  show ?thesis
  proof (cases "nm \<in> dom (functionFrames s)")
    case True
    then show ?thesis by (auto simp: f function_error_def)
  next
    case nd: False
    then have none: "functionFrames s nm = None" by (simp add: domIff)
    let ?s0 = "s\<lparr>currentFrame := Some new_FunctionFrame\<rparr>"
    show ?thesis
    proof (cases "duplicate_argument {} ps")
      case (Some p)
      have "addArguments ps ?s0 = Inl (Error (''Duplicate definition of argument '' @ p))"
        by (rule addArguments_duplicate [of _ new_FunctionFrame])
           (simp_all add: Some new_FunctionFrame_def)
      then show ?thesis using nd none Some by (simp add: f function_error_def and_then_def)
    next
      case None
      from addArguments_fresh [OF None, of s] obtain fr1 where
        a: "addArguments ps ?s0 = Inr (s\<lparr>currentFrame := Some fr1\<rparr>)"
        and d: "dom (nameMap fr1) = set ps" by blast
      let ?s1 = "s\<lparr>currentFrame := Some fr1\<rparr>"
      have v: "analysis_visit bd ?s1 =
          and_then (frame_visit bd fr1) (\<lambda>fr'. Inr (?s1\<lparr>currentFrame := Some fr'\<rparr>))"
        using analysis_visit_frame(1) [OF bd, of ?s1] by simp
      show ?thesis
      proof (cases "frame_visit bd fr1")
        case (Inl e)
        from frame_visit_unresolved_Inl(1) [OF Inl] obtain x where
          e: "e = Error (''Undefined variable '' @ x)" and u: "unresolved bd (set ps) = Inl x"
          by (auto simp: d)
        show ?thesis using nd none None a v Inl e u
          by (simp add: f function_error_def and_then_def)
      next
        case (Inr fr2)
        from frame_visit_unresolved_Inr(1) [OF Inr] have u: "unresolved bd (set ps) = Inr (dom (nameMap fr2))"
          by (simp add: d)
        show ?thesis using nd none None a v Inr u
          by (simp add: f function_error_def and_then_def) (rule exI [of _ fr2], rule refl)
      qed
    qed
  qed
qed


lemma visit_functions:
  assumes "list_all function_declaration fs"
  shows "case module_error (dom (functionFrames s)) fs of
           Some e \<Rightarrow> analysis_forEach fs s = Inl (Error (message e))
         | None \<Rightarrow> \<exists>s'. analysis_forEach fs s = Inr s'"
  using assms
proof (induction fs arbitrary: s)
  case Nil
  show ?case by simp
next
  case (Cons f fs)
  then have wf: "function_declaration f" and wfs: "list_all function_declaration fs" by simp_all
  note vf = visit_function [OF wf, of s]
  show ?case
  proof (cases "function_error (dom (functionFrames s)) f")
    case (Some e)
    then show ?thesis using vf by (simp add: and_then_def)
  next
    case None
    with vf obtain fr where 1: "analysis_visit f s =
        Inr (s\<lparr>functionFrames := (functionFrames s)(name_of f \<mapsto> Some fr), currentFrame := None\<rparr>)"
      by auto
    let ?s1 = "s\<lparr>functionFrames := (functionFrames s)(name_of f \<mapsto> Some fr), currentFrame := None\<rparr>"
    have d: "dom (functionFrames ?s1) = insert (name_of f) (dom (functionFrames s))" by simp
    have ih: "case module_error (insert (name_of f) (dom (functionFrames s))) fs of
        Some e \<Rightarrow> analysis_forEach fs ?s1 = Inl (Error (message e))
      | None \<Rightarrow> \<exists>s'. analysis_forEach fs ?s1 = Inr s'"
      using Cons.IH [OF wfs, of ?s1] by (simp only: d)
    have step: "analysis_forEach (f # fs) s = analysis_forEach fs ?s1"
      using 1 by (simp add: and_then_def)
    show ?thesis unfolding step using None ih by simp
  qed
qed

lemma module_error_None:
  "module_error defined fs = None \<longleftrightarrow>
     distinct (map name_of fs) \<and> set (map name_of fs) \<inter> defined = {} \<and>
     (\<forall>f \<in> set fs. distinct (parameters_of f) \<and>
        (\<exists>B. unresolved_each (body_of f) (set (parameters_of f)) = Inr B))"
proof (induction fs arbitrary: defined)
  case Nil
  show ?case by simp
next
  case (Cons f fs)
  have fe: "function_error defined f = None \<longleftrightarrow>
      name_of f \<notin> defined \<and> distinct (parameters_of f) \<and>
      (\<exists>B. unresolved_each (body_of f) (set (parameters_of f)) = Inr B)"
  proof -
    have da: "duplicate_argument {} (parameters_of f) = None \<longleftrightarrow> distinct (parameters_of f)"
      by (simp add: duplicate_argument_None)
    show ?thesis using da
      by (cases "duplicate_argument {} (parameters_of f)")
         (auto simp: function_error_def split: sum.splits)
  qed
  show ?case
  proof (cases "function_error defined f")
    case None
    then show ?thesis using fe Cons.IH [of "insert (name_of f) defined"] by auto
  next
    case (Some e)
    then show ?thesis using fe by auto
  qed
qed


text \<open>
  C8. For a module as the parser builds it, \<^verbatim>\<open>analyzeFrames\<close> throws exactly when
  \<open>module_error\<close> finds an error, and then throws the \<^verbatim>\<open>Error\<close> with the message of
  that error, which ends with the offending name; otherwise it returns the frames. There
  is no error exactly when the functions have different names, and each function has
  parameters of different names and a body in which every \<^verbatim>\<open>Id\<close> and \<^verbatim>\<open>Assign\<close> names
  a variable bound when the walk reaches it (the walk being the one of the analysis,
  which visits the alternative of an \<^verbatim>\<open>If\<close> before its consequence).
\<close>

theorem analysis_throws_exactly_when:
  assumes "well_formed_module (Module r fs)"
  shows "(case module_error {} fs of
            Some e \<Rightarrow> analyzeFrames (Module r fs) = Inl (Error (message e))
          | None \<Rightarrow> \<exists>F. analyzeFrames (Module r fs) = Inr F) \<and>
         (module_error {} fs = None \<longleftrightarrow>
            distinct (map name_of fs) \<and>
            (\<forall>f \<in> set fs. distinct (parameters_of f) \<and>
               (\<exists>B. unresolved_each (body_of f) (set (parameters_of f)) = Inr B)))"
proof
  have wf: "list_all function_declaration fs" using assms by simp
  have d: "dom (functionFrames (new_FunctionFrameAnalysis :: 'a FunctionFrameAnalysis)) = {}"
    by (simp add: new_FunctionFrameAnalysis_def)
  note v = visit_functions [OF wf, of new_FunctionFrameAnalysis, unfolded d]
  show "case module_error {} fs of
            Some e \<Rightarrow> analyzeFrames (Module r fs) = Inl (Error (message e))
          | None \<Rightarrow> \<exists>F. analyzeFrames (Module r fs) = Inr F"
    using v by (auto simp: analyzeFrames_def and_then_def split: option.splits)
  show "module_error {} fs = None \<longleftrightarrow>
            distinct (map name_of fs) \<and>
            (\<forall>f \<in> set fs. distinct (parameters_of f) \<and>
               (\<exists>B. unresolved_each (body_of f) (set (parameters_of f)) = Inr B))"
    by (simp add: module_error_None)
qed

text \<open>The module of the repository's parser test, \<^verbatim>\<open>factorial\<close>: the analysis succeeds.\<close>

theorem analysis_throws_exactly_when_witness:
  "well_formed_module
     (Module (0::nat) [Function 1 ''factorial'' [''n'']
        (Block 2 [Var 3 ''result'' (Number 4 1),
           While 5 (NotEqual 6 (Id_node 7 ''n'') (Number 8 1))
             (Block 9 [Assign 10 ''result'' (Multiply 11 (Id_node 12 ''result'') (Id_node 13 ''n'')),
                       Assign 14 ''n'' (Subtract 15 (Id_node 16 ''n'') (Number 17 1))]),
           Return 18 (Id_node 19 ''result'')])]) \<and>
   (\<exists>F. analyzeFrames
     (Module (0::nat) [Function 1 ''factorial'' [''n'']
        (Block 2 [Var 3 ''result'' (Number 4 1),
           While 5 (NotEqual 6 (Id_node 7 ''n'') (Number 8 1))
             (Block 9 [Assign 10 ''result'' (Multiply 11 (Id_node 12 ''result'') (Id_node 13 ''n'')),
                       Assign 14 ''n'' (Subtract 15 (Id_node 16 ''n'') (Number 17 1))]),
           Return 18 (Id_node 19 ''result'')])]) = Inr F)"
proof -
  let ?fs = "[Function 1 ''factorial'' [''n'']
        (Block 2 [Var 3 ''result'' (Number 4 1),
           While 5 (NotEqual 6 (Id_node 7 ''n'') (Number 8 1))
             (Block 9 [Assign 10 ''result'' (Multiply 11 (Id_node 12 ''result'') (Id_node 13 ''n'')),
                       Assign 14 ''n'' (Subtract 15 (Id_node 16 ''n'') (Number 17 1))]),
           Return 18 (Id_node 19 ''result'')])] :: nat AST list"
  have wf: "well_formed_module (Module 0 ?fs)" by simp
  have ok: "module_error {} ?fs = None" by (simp add: function_error_def)
  from analysis_throws_exactly_when [OF wf]
  have "case module_error {} ?fs of
      Some e \<Rightarrow> analyzeFrames (Module 0 ?fs) = Inl (Error (message e))
    | None \<Rightarrow> \<exists>F. analyzeFrames (Module 0 ?fs) = Inr F"
    by (rule conjunct1)
  then have "\<exists>F. analyzeFrames (Module 0 ?fs) = Inr F"
    by (simp only: ok option.case)
  with wf show ?thesis by (rule conjI)
qed

section \<open>Arity of calls and of function declarations\<close>

lemma succeeds_Inr [simp]: "succeeds P (Inr st) = P st"
  by (simp add: succeeds_def)

lemma succeeds_bind:
  assumes "succeeds P m" and "\<And>st1. P st1 \<Longrightarrow> succeeds Q (f st1)"
  shows "succeeds Q (and_then m f)"
  using assms by (cases m) (simp_all add: succeeds_def and_then_def)

lemma succeeds_Inr_ex: "succeeds P res \<Longrightarrow> \<exists>st. res = Inr st \<and> P st"
  by (cases res) (simp_all add: succeeds_def)

lemma never_throws_simps [simp]:
  "never_throws e (Inr st)" "never_throws e (Inl e') = (e' \<noteq> e)"
  by (simp_all add: never_throws_def)

lemma never_throws_bind:
  assumes "never_throws e m" and "\<And>x. never_throws e (f x)"
  shows "never_throws e (and_then m f)"
  using assms by (cases m) (simp_all add: never_throws_def and_then_def)

lemma env_ok_emit [simp]: "env_ok D (emit l st) = env_ok D st"
  by (simp add: env_ok_def emit_def)

lemma env_ok_new_Label [simp]: "env_ok D (snd (new_Label st)) = env_ok D st"
  by (simp add: env_ok_def new_Label_def)

lemma local_offset_ok:
  "env_ok D st \<Longrightarrow> x \<in> D \<Longrightarrow> \<exists>offset. local_offset x st = Inr offset"
  by (auto simp: env_ok_def local_offset_def split: option.splits)

lemma codegen_defined:
  "defined_after (n :: 'r AST) D = Some D' \<Longrightarrow> env_ok D st \<Longrightarrow> succeeds (env_ok D') (codegen_visit n st)"
  "defined_after_each (ns :: 'r AST list) D = Some D' \<Longrightarrow> env_ok D st \<Longrightarrow>
     succeeds (env_ok D') (codegen_forEach ns st) \<and> (\<forall>i. succeeds (env_ok D') (codegen_args ns i st))"
proof (induction n D and ns D arbitrary: st D' and st D' rule: defined_after_defined_after_each.induct)
  case (1 r v D)
  then show ?case by simp
next
  case (2 r x D)
  then show ?case
    using local_offset_ok [of D st x] by (auto simp: and_then_def split: if_splits)
next
  case (3 r t D)
  show ?case unfolding codegen_visit.simps
    by (rule succeeds_bind [OF "3.IH" [OF _ "3.prems"(2)]]) (use "3.prems" in simp_all)
next
  case (4 r a b D)
  from "4.prems" obtain D1 where a: "defined_after a D = Some D1"
    and b: "defined_after b D1 = Some D'" by (auto simp: bind_eq_Some_conv)
  show ?case unfolding codegen_visit.simps
    apply (rule succeeds_bind [OF "4.IH"(1) [OF a "4.prems"(2)]])
    apply (rule succeeds_bind [OF "4.IH"(2) [OF a b]])
     apply simp_all
    done
next
  case (5 r a b D)
  from "5.prems" obtain D1 where a: "defined_after a D = Some D1"
    and b: "defined_after b D1 = Some D'" by (auto simp: bind_eq_Some_conv)
  show ?case unfolding codegen_visit.simps
    apply (rule succeeds_bind [OF "5.IH"(1) [OF a "5.prems"(2)]])
    apply (rule succeeds_bind [OF "5.IH"(2) [OF a b]])
     apply simp_all
    done
next
  case (6 r a b D)
  from "6.prems" obtain D1 where a: "defined_after a D = Some D1"
    and b: "defined_after b D1 = Some D'" by (auto simp: bind_eq_Some_conv)
  show ?case unfolding codegen_visit.simps
    apply (rule succeeds_bind [OF "6.IH"(1) [OF a "6.prems"(2)]])
    apply (rule succeeds_bind [OF "6.IH"(2) [OF a b]])
     apply simp_all
    done
next
  case (7 r a b D)
  from "7.prems" obtain D1 where a: "defined_after a D = Some D1"
    and b: "defined_after b D1 = Some D'" by (auto simp: bind_eq_Some_conv)
  show ?case unfolding codegen_visit.simps
    apply (rule succeeds_bind [OF "7.IH"(1) [OF a "7.prems"(2)]])
    apply (rule succeeds_bind [OF "7.IH"(2) [OF a b]])
     apply simp_all
    done
next
  case (8 r a b D)
  from "8.prems" obtain D1 where a: "defined_after a D = Some D1"
    and b: "defined_after b D1 = Some D'" by (auto simp: bind_eq_Some_conv)
  show ?case unfolding codegen_visit.simps
    apply (rule succeeds_bind [OF "8.IH"(1) [OF a "8.prems"(2)]])
    apply (rule succeeds_bind [OF "8.IH"(2) [OF a b]])
     apply simp_all
    done
next
  case (9 r a b D)
  from "9.prems" obtain D1 where a: "defined_after a D = Some D1"
    and b: "defined_after b D1 = Some D'" by (auto simp: bind_eq_Some_conv)
  show ?case unfolding codegen_visit.simps
    apply (rule succeeds_bind [OF "9.IH"(1) [OF a "9.prems"(2)]])
    apply (rule succeeds_bind [OF "9.IH"(2) [OF a b]])
     apply simp_all
    done
next
  case (10 r callee args D)
  from "10.prems" have e: "defined_after_each args D = Some D'" by simp
  note ih = "10.IH" [OF e]
  show ?case
  proof (cases "1 < length args")
    case True
    have "succeeds (env_ok D') (codegen_args args 0 (emit (tab # ''sub'' @ tab # ''sp, sp, #32'') st))"
      using ih [of "emit (tab # ''sub'' @ tab # ''sp, sp, #32'') st"] "10.prems"(2) by simp
    then show ?thesis using True
      by (cases "codegen_args args 0 (emit (tab # ''sub'' @ tab # ''sp, sp, #32'') st)")
         (simp_all add: succeeds_def and_then_def)
  next
    case False
    have "succeeds (env_ok D') (codegen_forEach args st)"
      using ih [of st] "10.prems"(2) by simp
    then show ?thesis using False
      by (cases "codegen_forEach args st") (simp_all add: succeeds_def and_then_def)
  qed
next
  case (11 r t D)
  show ?case unfolding codegen_visit.simps
    by (rule succeeds_bind [OF "11.IH" [OF _ "11.prems"(2)]]) (use "11.prems" in simp_all)
next
  case (12 r statements D)
  then show ?case by simp
next
  case (13 r c t e D)
  from "13.prems" obtain D1 D2 where c: "defined_after c D = Some D1"
    and t: "defined_after t D1 = Some D2" and e: "defined_after e D2 = Some D'"
    by (auto simp: bind_eq_Some_conv)
  have env: "env_ok D (snd (new_Label (snd (new_Label st))))"
    using "13.prems"(2) by simp
  show ?case unfolding codegen_visit.simps Let_def split_beta
    apply (rule succeeds_bind [OF "13.IH"(1) [OF c env]])
    apply (rule succeeds_bind [OF "13.IH"(2) [OF c t]])
     apply simp
    apply (rule succeeds_bind [OF "13.IH"(3) [OF c t e]])
     apply simp_all
    done
next
  case (14 r name parameters body D)
  then show ?case by simp
next
  case (15 r name v D)
  from "15.prems" obtain D1 where v: "defined_after v D = Some D1" and D': "D' = insert name D1"
    by auto
  show ?case unfolding codegen_visit.simps
    apply (rule succeeds_bind [OF "15.IH" [OF v "15.prems"(2)]])
    apply (auto simp: env_ok_def emit_def Let_def D')
    done
next
  case (16 r name v D)
  from "16.prems" have v: "defined_after v D = Some D'" and n: "name \<in> D'"
    by (auto simp: bind_eq_Some_conv split: if_splits)
  show ?case unfolding codegen_visit.simps
    apply (rule succeeds_bind [OF "16.IH" [OF v "16.prems"(2)]])
    subgoal for st1
      using local_offset_ok [of D' st1 name] n by (auto simp: and_then_def)
    done
next
  case (17 r c b D)
  from "17.prems" obtain D1 where c: "defined_after c D = Some D1"
    and b: "defined_after b D1 = Some D'" by (auto simp: bind_eq_Some_conv)
  have env: "env_ok D (emit (Label_toString (fst (new_Label st)) @ '':'')
                 (snd (new_Label (snd (new_Label st)))))"
    using "17.prems"(2) by simp
  show ?case unfolding codegen_visit.simps Let_def split_beta
    apply (rule succeeds_bind [OF "17.IH"(1) [OF c env]])
    apply (rule succeeds_bind [OF "17.IH"(2) [OF c b]])
     apply simp_all
    done
next
  case (18 r fs D)
  then show ?case by simp
next
  case (19 D)
  then show ?case by simp
next
  case (20 n ns D)
  from "20.prems" obtain D1 where n: "defined_after n D = Some D1"
    and ns: "defined_after_each ns D1 = Some D'" by (auto simp: bind_eq_Some_conv)
  show ?case
  proof (intro conjI allI)
    show "succeeds (env_ok D') (codegen_forEach (n # ns) st)"
      unfolding codegen_forEach.simps
      apply (rule succeeds_bind [OF "20.IH"(1) [OF n "20.prems"(2)]])
      using "20.IH"(2) [OF n ns] apply simp
      done
  next
    fix i
    show "succeeds (env_ok D') (codegen_args (n # ns) i st)"
      unfolding codegen_args.simps
      apply (rule succeeds_bind [OF "20.IH"(1) [OF n "20.prems"(2)]])
      using "20.IH"(2) [OF n ns] apply simp
      done
  qed
qed


lemma set_parameters_dom: "dom (set_parameters ps i m) = dom m \<union> set ps"
  by (induction ps arbitrary: i m) auto

lemma set_parameters_nonzero:
  "i + length ps \<le> 4 \<Longrightarrow> (\<forall>x. m x \<noteq> Some 0) \<Longrightarrow> set_parameters ps i m x \<noteq> Some 0"
  by (induction ps arbitrary: i m) auto

lemma env_ok_setupEnvironment:
  "length ps \<le> 4 \<Longrightarrow> env_ok (set ps) (setupEnvironment ps st)"
  using set_parameters_nonzero [of 0 ps Map.empty]
  by (simp add: env_ok_def setupEnvironment_def new_Label_def set_parameters_dom)

lemma visitFunction_compiles:
  assumes "length ps \<le> 4" and "defined_after body (set ps) = Some D'"
  shows "\<exists>st1. codegen_visit (Function r name ps body) st = Inr st1"
proof -
  let ?st0 = "emitPrologue
                (emit (''_'' @ name @ '':'')
                (emit (tab # ''.p2align'' @ tab # ''2'')
                (emit (tab # ''.globl'' @ tab # ''_'' @ name)
                (setupEnvironment ps st))))"
  have "env_ok (set ps) ?st0"
    using env_ok_setupEnvironment [OF assms(1), of st] by (simp add: emitPrologue_def)
  from succeeds_Inr_ex [OF codegen_defined(1) [OF assms(2) this]]
  obtain st1 where "codegen_visit body ?st0 = Inr st1" by blast
  then show ?thesis using assms(1) by (simp add: and_then_def)
qed

lemma local_offset_never_arity: "never_throws arity_error (local_offset x st)"
  by (simp add: local_offset_def arity_error_def split: option.splits)

lemma forEach_never_throws:
  "(\<And>x st. x \<in> set ns \<Longrightarrow> never_throws e (codegen_visit x st)) \<Longrightarrow>
   never_throws e (codegen_forEach ns st)"
  by (induction ns arbitrary: st) (auto intro!: never_throws_bind)

lemma args_never_throws:
  "(\<And>x st. x \<in> set ns \<Longrightarrow> never_throws e (codegen_visit x st)) \<Longrightarrow>
   never_throws e (codegen_args ns i st)"
  by (induction ns arbitrary: st i) (auto intro!: never_throws_bind)

lemma codegen_never_arity:
  "no_functions n \<Longrightarrow> never_throws arity_error (codegen_visit n st)"
proof (induction n arbitrary: st)
  case (Id_node r x)
  show ?case by (auto intro!: never_throws_bind local_offset_never_arity)
next
  case (Call r callee args)
  then have "\<And>x st. x \<in> set args \<Longrightarrow> never_throws arity_error (codegen_visit x st)"
    by (simp add: list_all_iff)
  then show ?case
    by (auto intro!: never_throws_bind forEach_never_throws args_never_throws)
next
  case (Block r ss)
  then have "\<And>x st. x \<in> set ss \<Longrightarrow> never_throws arity_error (codegen_visit x st)"
    by (simp add: list_all_iff)
  then show ?case
    by (auto intro!: forEach_never_throws)
next
  case (If_node r c t e)
  then show ?case
    by (auto intro!: never_throws_bind simp: Let_def split_beta)
next
  case (While r c b)
  then show ?case
    by (auto intro!: never_throws_bind simp: Let_def split_beta)
next
  case (Var r name v)
  then show ?case
    by (auto intro!: never_throws_bind simp: Let_def arity_error_def split: option.splits)
next
  case (Assign r name v)
  then show ?case
    by (auto intro!: never_throws_bind local_offset_never_arity)
qed (auto intro!: never_throws_bind)


lemma frame_offset_never_arity: "never_throws arity_error (frame_offset n st)"
  by (simp add: frame_offset_def arity_error_def split: option.splits)

lemma frames_forEach_never_throws:
  "(\<And>x st. x \<in> set ns \<Longrightarrow> never_throws e (codegen_frames_visit x st)) \<Longrightarrow>
   never_throws e (codegen_frames_forEach ns st)"
  by (induction ns arbitrary: st) (auto intro!: never_throws_bind)

lemma frames_args_never_throws:
  "(\<And>x st. x \<in> set ns \<Longrightarrow> never_throws e (codegen_frames_visit x st)) \<Longrightarrow>
   never_throws e (codegen_frames_args ns i st)"
  by (induction ns arbitrary: st i) (auto intro!: never_throws_bind)

lemma codegen_frames_never_arity:
  "no_functions n \<Longrightarrow> never_throws arity_error (codegen_frames_visit n st)"
proof (induction n arbitrary: st)
  case (Id_node r x)
  show ?case by (auto intro!: never_throws_bind frame_offset_never_arity)
next
  case (Call r callee args)
  then have "\<And>x st. x \<in> set args \<Longrightarrow> never_throws arity_error (codegen_frames_visit x st)"
    by (simp add: list_all_iff)
  then show ?case
    by (auto intro!: never_throws_bind frames_forEach_never_throws frames_args_never_throws)
next
  case (Block r ss)
  then have "\<And>x st. x \<in> set ss \<Longrightarrow> never_throws arity_error (codegen_frames_visit x st)"
    by (simp add: list_all_iff)
  then show ?case
    by (auto intro!: frames_forEach_never_throws)
next
  case (If_node r c t e)
  then show ?case
    by (auto intro!: never_throws_bind simp: Let_def split_beta)
next
  case (While r c b)
  then show ?case
    by (auto intro!: never_throws_bind simp: Let_def split_beta)
next
  case (Var r name v)
  then show ?case
    by (auto intro!: never_throws_bind frame_offset_never_arity)
next
  case (Assign r name v)
  then show ?case
    by (auto intro!: never_throws_bind frame_offset_never_arity)
qed (auto intro!: never_throws_bind)

lemma in_frame_emit [simp]: "in_frame fr (emit l st) = in_frame fr st"
  by (simp add: in_frame_def emit_def)

lemma in_frame_new_Label [simp]: "in_frame fr (snd (new_Label st)) = in_frame fr st"
  by (simp add: in_frame_def new_Label_def)

lemma frame_offset_ok: "in_frame fr st \<Longrightarrow> \<exists>offset. frame_offset n st = Inr offset"
  by (simp add: in_frame_def frame_offset_def split: option.splits)

lemma frames_forEach_succeeds:
  "(\<And>x st. x \<in> set ns \<Longrightarrow> in_frame fr st \<Longrightarrow>
      succeeds (in_frame fr) (codegen_frames_visit x st)) \<Longrightarrow>
   in_frame fr st \<Longrightarrow> succeeds (in_frame fr) (codegen_frames_forEach ns st)"
proof (induction ns arbitrary: st)
  case Nil
  then show ?case by simp
next
  case (Cons n ns)
  show ?case unfolding codegen_frames_forEach.simps
    by (rule succeeds_bind [of "in_frame fr"]) (simp_all add: Cons)
qed

lemma frames_args_succeeds:
  "(\<And>x st. x \<in> set ns \<Longrightarrow> in_frame fr st \<Longrightarrow>
      succeeds (in_frame fr) (codegen_frames_visit x st)) \<Longrightarrow>
   in_frame fr st \<Longrightarrow> succeeds (in_frame fr) (codegen_frames_args ns i st)"
proof (induction ns arbitrary: st i)
  case Nil
  then show ?case by simp
next
  case (Cons n ns)
  show ?case unfolding codegen_frames_args.simps
    by (rule succeeds_bind [of "in_frame fr"]) (simp_all add: Cons)
qed

lemma binary_succeeds:
  assumes "\<And>st. in_frame fr st \<Longrightarrow> succeeds (in_frame fr) (codegen_frames_visit a st)"
    and "\<And>st. in_frame fr st \<Longrightarrow> succeeds (in_frame fr) (codegen_frames_visit b st)"
    and "in_frame fr st" and "\<And>st. in_frame fr st \<Longrightarrow> in_frame fr (g st)"
  shows "succeeds (in_frame fr)
    (and_then (codegen_frames_visit a st) (\<lambda>st0.
     and_then (codegen_frames_visit b (emit l st0)) (\<lambda>st1. Inr (g st1))))"
  by (rule succeeds_bind [of "in_frame fr"], simp add: assms,
      rule succeeds_bind [of "in_frame fr"]) (simp_all add: assms)

lemma codegen_frames_ok:
  "no_functions n \<Longrightarrow> in_frame fr st \<Longrightarrow> succeeds (in_frame fr) (codegen_frames_visit n st)"
proof (induction n arbitrary: st)
  case (Number r v)
  then show ?case by simp
next
  case (Id_node r x)
  then show ?case
    using frame_offset_ok [of fr st "Id_node r x"] by (auto simp: and_then_def)
next
  case (Not_node r t)
  show ?case unfolding codegen_frames_visit.simps
    by (rule succeeds_bind [of "in_frame fr"]) (use Not_node in simp_all)
next
  case (Equal r a b)
  then show ?case unfolding codegen_frames_visit.simps
    by (intro binary_succeeds) simp_all
next
  case (NotEqual r a b)
  then show ?case unfolding codegen_frames_visit.simps
    by (intro binary_succeeds) simp_all
next
  case (Add r a b)
  then show ?case unfolding codegen_frames_visit.simps
    by (intro binary_succeeds) simp_all
next
  case (Subtract r a b)
  then show ?case unfolding codegen_frames_visit.simps
    by (intro binary_succeeds) simp_all
next
  case (Multiply r a b)
  then show ?case unfolding codegen_frames_visit.simps
    by (intro binary_succeeds) simp_all
next
  case (Divide r a b)
  then show ?case unfolding codegen_frames_visit.simps
    by (intro binary_succeeds) simp_all
next
  case (Call r callee args)
  then have ih: "\<And>x st. x \<in> set args \<Longrightarrow> in_frame fr st \<Longrightarrow>
      succeeds (in_frame fr) (codegen_frames_visit x st)"
    by (simp add: list_all_iff)
  show ?case
  proof (cases "1 < length args")
    case True
    have "succeeds (in_frame fr)
      (codegen_frames_args args 0 (emit (tab # ''sub'' @ tab # ''sp, sp, #32'') st))"
      by (rule frames_args_succeeds) (simp_all add: ih Call.prems)
    then show ?thesis using True
      by (cases "codegen_frames_args args 0 (emit (tab # ''sub'' @ tab # ''sp, sp, #32'') st)")
         (simp_all add: succeeds_def and_then_def)
  next
    case False
    have "succeeds (in_frame fr) (codegen_frames_forEach args st)"
      by (rule frames_forEach_succeeds) (simp_all add: ih Call.prems)
    then show ?thesis using False
      by (cases "codegen_frames_forEach args st") (simp_all add: succeeds_def and_then_def)
  qed
next
  case (Return r t)
  show ?case unfolding codegen_frames_visit.simps
    by (rule succeeds_bind [of "in_frame fr"]) (use Return in simp_all)
next
  case (Block r ss)
  then have ih: "\<And>x st. x \<in> set ss \<Longrightarrow> in_frame fr st \<Longrightarrow>
      succeeds (in_frame fr) (codegen_frames_visit x st)"
    by (simp add: list_all_iff)
  show ?case unfolding codegen_frames_visit.simps
    by (rule frames_forEach_succeeds) (simp_all add: ih Block.prems)
next
  case (If_node r c t e)
  show ?case unfolding codegen_frames_visit.simps Let_def split_beta
    apply (rule succeeds_bind [of "in_frame fr"])
     apply (use If_node in simp)
    apply (rule succeeds_bind [of "in_frame fr"])
     apply (use If_node in simp)
    apply (rule succeeds_bind [of "in_frame fr"])
     apply (use If_node in simp_all)
    done
next
  case (Function r name ps body)
  then show ?case by simp
next
  case (Var r name v)
  show ?case unfolding codegen_frames_visit.simps
    apply (rule succeeds_bind [of "in_frame fr"])
     apply (use Var in simp)
    subgoal for st1
      using frame_offset_ok [of fr st1 "Var r name v"] by (auto simp: and_then_def)
    done
next
  case (Assign r name v)
  show ?case unfolding codegen_frames_visit.simps
    apply (rule succeeds_bind [of "in_frame fr"])
     apply (use Assign in simp)
    subgoal for st1
      using frame_offset_ok [of fr st1 "Assign r name v"] by (auto simp: and_then_def)
    done
next
  case (While r c b)
  show ?case unfolding codegen_frames_visit.simps Let_def split_beta
    apply (rule succeeds_bind [of "in_frame fr"])
     apply (use While in simp)
    apply (rule succeeds_bind [of "in_frame fr"])
     apply (use While in simp_all)
    done
next
  case (Module r fs)
  then show ?case by simp
qed

lemma in_frame_save_arguments [simp]:
  "in_frame fr (save_arguments k i b st) = in_frame fr st"
  by (induction k i b st rule: save_arguments.induct)
     (subst save_arguments.simps, simp)

lemma emitPrologue_frames_ok:
  assumes "length ps \<le> 8" and "in_frame fr st"
  shows "succeeds (in_frame fr) (emitPrologue_frames ps st)"
proof -
  have c: "\<And>l st. currentFrameInfo (emit l st) = currentFrameInfo st"
    by (simp add: emit_def)
  from assms(2) have cur: "currentFrameInfo st = Some fr"
    by (simp add: in_frame_def)
  show ?thesis using assms
    by (simp add: emitPrologue_frames_def Let_def c cur)
qed

lemma visitFunction_frames_compiles:
  assumes "length ps \<le> 4" and "no_functions body" and "frameInfos st name = Some (Some fr)"
  shows "\<exists>st1. codegen_frames_visit (Function r name ps body) st = Inr st1"
proof -
  let ?st0 = "emit (''_'' @ name @ '':'')
             (emit (tab # ''.p2align'' @ tab # ''2'')
             (emit (tab # ''.globl'' @ tab # ''_'' @ name)
             (setupEnvironment_frames name st)))"
  have "in_frame fr ?st0"
    using assms(3) by (simp add: setupEnvironment_frames_def in_frame_def new_Label_def emit_def)
  then have "succeeds (in_frame fr) (emitPrologue_frames ps ?st0)"
    using assms(1) by (intro emitPrologue_frames_ok) simp_all
  then obtain st1 where p: "emitPrologue_frames ps ?st0 = Inr st1" and f: "in_frame fr st1"
    using succeeds_Inr_ex by blast
  from succeeds_Inr_ex [OF codegen_frames_ok [OF assms(2) f]]
  obtain st2 where "codegen_frames_visit body st1 = Inr st2" by blast
  then show ?thesis using assms(1) p by (simp add: and_then_def)
qed


lemma number_args_compile:
  "\<exists>st1. codegen_args (map (Number r) vs) i st = Inr st1"
  "\<exists>st1. codegen_forEach (map (Number r) vs) st = Inr st1"
  "\<exists>st1. codegen_frames_args (map (Number r) vs) i st' = Inr st1"
  "\<exists>st1. codegen_frames_forEach (map (Number r) vs) st' = Inr st1"
  by (induction vs arbitrary: i st st') (simp_all add: and_then_def)

lemmas codegen_defs = new_CodeGenerator_def new_CodeGenerator_frames_def emit_def and_then_def
  show_int_def show_nat_def number_text_def decimal.simps

text \<open>
  \<^bold>\<open>C4.\<close> A call with more than four arguments is not rejected: \<^verbatim>\<open>visitCall\<close> has no
  arity check in either version of the generator, while \<^verbatim>\<open>visitFunction\<close> beside it has
  one. A call whose arguments are numbers compiles whatever their count; for
  \<^verbatim>\<open>f(1, 2, 3, 4, 5)\<close> both generators print the same lines, which reserve 32 bytes,
  store the fifth argument at \<^verbatim>\<open>[sp, #32]\<close>, past the reserved area, and load only
  \<^verbatim>\<open>x0\<close> to \<^verbatim>\<open>x3\<close>.
\<close>

theorem visitCall_accepts_five_arguments:
  "(\<exists>st1. codegen_visit (Call r callee (map (Number r') vs)) st = Inr st1) \<and>
   (\<exists>st1. codegen_frames_visit (Call r callee (map (Number r') vs)) st' = Inr st1) \<and>
   map_sum id console
     (codegen_visit
        (Call (0::nat) ''f'' [Number 1 1, Number 2 2, Number 3 3, Number 4 4, Number 5 5])
        new_CodeGenerator) =
     Inr [tab # ''sub'' @ tab # ''sp, sp, #32'',
          tab # ''ldr'' @ tab # ''x0, =1'', tab # ''str'' @ tab # ''x0, [sp, #0]'',
          tab # ''ldr'' @ tab # ''x0, =2'', tab # ''str'' @ tab # ''x0, [sp, #8]'',
          tab # ''ldr'' @ tab # ''x0, =3'', tab # ''str'' @ tab # ''x0, [sp, #16]'',
          tab # ''ldr'' @ tab # ''x0, =4'', tab # ''str'' @ tab # ''x0, [sp, #24]'',
          tab # ''ldr'' @ tab # ''x0, =5'', tab # ''str'' @ tab # ''x0, [sp, #32]'',
          tab # ''ldp'' @ tab # ''x0, x1, [sp], #16'',
          tab # ''ldp'' @ tab # ''x2, x3, [sp], #16'',
          tab # ''bl'' @ tab # ''_f''] \<and>
   map_sum id console
     (codegen_frames_visit
        (Call (0::nat) ''f'' [Number 1 1, Number 2 2, Number 3 3, Number 4 4, Number 5 5])
        (new_CodeGenerator_frames Map.empty)) =
   map_sum id console
     (codegen_visit
        (Call (0::nat) ''f'' [Number 1 1, Number 2 2, Number 3 3, Number 4 4, Number 5 5])
        new_CodeGenerator)"
proof (intro conjI)
  show "\<exists>st1. codegen_visit (Call r callee (map (Number r') vs)) st = Inr st1"
    using number_args_compile(1) [of r' vs 0 "emit (tab # ''sub'' @ tab # ''sp, sp, #32'') st"]
      number_args_compile(2) [of r' vs st]
    by (auto simp: and_then_def)
  show "\<exists>st1. codegen_frames_visit (Call r callee (map (Number r') vs)) st' = Inr st1"
    using number_args_compile(3) [of r' vs 0 "emit (tab # ''sub'' @ tab # ''sp, sp, #32'') st'"]
      number_args_compile(4) [of r' vs st']
    by (auto simp: and_then_def)
qed (simp_all add: codegen_defs)

text \<open>
  \<^bold>\<open>C5.\<close> \<^verbatim>\<open>visitFunction\<close> of both versions of the generator throws
  \<^verbatim>\<open>More than 4 params is not supported\<close> for a declaration with five or more
  parameters. With at most four parameters the declaration compiles: in codegen.ts when
  the walk of the body finds every name it reads or assigns bound (\<open>defined_after\<close>), in
  the version over frames when the body declares no function and the analysis has
  recorded a frame for the name. With at most four parameters and no function declared in
  the body, neither version throws the arity error.
\<close>

theorem visitFunction_arity_ceiling:
  fixes body :: "'r AST" and st :: CodeGenerator and st' :: "'r CodeGenerator_frames"
  shows
    "(4 < length ps \<longrightarrow>
        codegen_visit (Function r name ps body) st = Inl arity_error \<and>
        codegen_frames_visit (Function r name ps body) st' = Inl arity_error) \<and>
     (length ps \<le> 4 \<longrightarrow>
        (defined_after body (set ps) \<noteq> None \<longrightarrow>
           (\<exists>st1. codegen_visit (Function r name ps body) st = Inr st1)) \<and>
        (no_functions body \<and> (\<exists>fr. frameInfos st' name = Some (Some fr)) \<longrightarrow>
           (\<exists>st1. codegen_frames_visit (Function r name ps body) st' = Inr st1)) \<and>
        (no_functions body \<longrightarrow>
           codegen_visit (Function r name ps body) st \<noteq> Inl arity_error \<and>
           codegen_frames_visit (Function r name ps body) st' \<noteq> Inl arity_error))"
proof (intro conjI impI)
  assume "4 < length ps"
  then show "codegen_visit (Function r name ps body) st = Inl arity_error"
    and "codegen_frames_visit (Function r name ps body) st' = Inl arity_error"
    by (simp_all add: arity_error_def)
next
  assume "length ps \<le> 4" and "defined_after body (set ps) \<noteq> None"
  then show "\<exists>st1. codegen_visit (Function r name ps body) st = Inr st1"
    using visitFunction_compiles [of ps body _ r name st] by auto
next
  assume "length ps \<le> 4" and "no_functions body \<and> (\<exists>fr. frameInfos st' name = Some (Some fr))"
  then show "\<exists>st1. codegen_frames_visit (Function r name ps body) st' = Inr st1"
    using visitFunction_frames_compiles [of ps body st' name _ r] by auto
next
  assume le: "length ps \<le> 4" and nf: "no_functions body"
  have "never_throws arity_error (codegen_visit (Function r name ps body) st)"
    using le by (auto intro!: never_throws_bind codegen_never_arity [OF nf])
  then show "codegen_visit (Function r name ps body) st \<noteq> Inl arity_error"
    by (simp add: never_throws_def)
  have "never_throws arity_error (emitPrologue_frames ps st'')" for st'' :: "'r CodeGenerator_frames"
    by (simp add: emitPrologue_frames_def Let_def arity_error_def split: option.splits)
  then have "never_throws arity_error (codegen_frames_visit (Function r name ps body) st')"
    using le by (auto intro!: never_throws_bind codegen_frames_never_arity [OF nf])
  then show "codegen_frames_visit (Function r name ps body) st' \<noteq> Inl arity_error"
    by (simp add: never_throws_def)
qed

theorem visitFunction_arity_ceiling_witness:
  "codegen_visit (Function (1::nat) ''f'' [''a'', ''b'', ''c'', ''d'', ''e''] (Block 2 []))
     new_CodeGenerator = Inl (Error ''More than 4 params is not supported'') \<and>
   codegen_frames_visit (Function (1::nat) ''f'' [''a'', ''b'', ''c'', ''d'', ''e''] (Block 2 []))
     (new_CodeGenerator_frames Map.empty) = Inl (Error ''More than 4 params is not supported'') \<and>
   (\<exists>st1. codegen_visit
      (Function (1::nat) ''f'' [''a'', ''b'', ''c'', ''d'']
         (Block 2 [Var 3 ''x'' (Add 4 (Id_node 5 ''a'') (Id_node 6 ''d'')),
                   Return 7 (Id_node 8 ''x'')]))
      new_CodeGenerator = Inr st1) \<and>
   (\<exists>st1. codegen_frames_visit
      (Function (1::nat) ''f'' [''a'', ''b'', ''c'', ''d'']
         (Block 2 [Var 3 ''x'' (Add 4 (Id_node 5 ''a'') (Id_node 6 ''d'')),
                   Return 7 (Id_node 8 ''x'')]))
      (new_CodeGenerator_frames (Map.empty(''f'' \<mapsto> Some new_FunctionFrame))) = Inr st1)"
  using visitFunction_arity_ceiling
      [of "[''a'', ''b'', ''c'', ''d'', ''e'']" "1::nat" "''f''" "Block 2 []"
          new_CodeGenerator "new_CodeGenerator_frames Map.empty"]
    visitFunction_arity_ceiling
      [of "[''a'', ''b'', ''c'', ''d'']" "1::nat" "''f''"
          "Block 2 [Var 3 ''x'' (Add 4 (Id_node 5 ''a'') (Id_node 6 ''d'')),
                    Return 7 (Id_node 8 ''x'')]"
          new_CodeGenerator
          "new_CodeGenerator_frames (Map.empty(''f'' \<mapsto> Some new_FunctionFrame))"]
  by (simp add: arity_error_def new_CodeGenerator_frames_def)

section \<open>The declaration of print in the MLIR module\<close>

lemmas mlir_defs = compile_mlir_def new_MlirCodegen_def emit_def new_Value_def new_Label_def
  loadNumber_def emitLabel_def emitBr_def emit_switch_def visitComp_def visitArithOp_def
  frame_ref_def getOffset_def Value_toString_def mlir_Label_toString_def ty_def Let_def
  show_int_def show_nat_def number_text_def decimal.simps

text \<open>
  \<^bold>\<open>C6.\<close> \<^verbatim>\<open>visitModule\<close> prints the line \<^verbatim>\<open>func.func private @print(i64) -> i64\<close>
  after the functions of every module, and no other declaration: it does not look at the
  calls (the line carries a \<^verbatim>\<open>FIXME\<close>, and \<^verbatim>\<open>visitCall\<close> a \<^verbatim>\<open>TODO: add globals\<close>). A
  module whose only call is to the undefined \<^verbatim>\<open>foo\<close> gets the declaration of \<^verbatim>\<open>print\<close>,
  which it does not call, and none of \<^verbatim>\<open>foo\<close>; so does the empty module. Whenever
  \<^verbatim>\<open>visitModule\<close> returns, the last two lines printed are that declaration and the
  closing brace.
\<close>

theorem visitModule_always_declares_print:
  "compile_mlir
     (Module (0::nat) [Function 1 ''main'' []
        (Block 2 [Call 3 ''foo'' [Number 4 1, Number 5 2]])]) =
     Inr [''module {'',
          ''  func.func @main() -> i64 {'',
          ''    %0 = arith.constant 1 : i64'',
          ''    %1 = arith.constant 2 : i64'',
          ''    %2 = call @foo(%0, %1) : (i64, i64) -> i64'',
          ''    %3 = arith.constant 0 : i64'',
          ''    return %3 : i64'',
          ''  }'',
          ''  func.func private @print(i64) -> i64'',
          ''}''] \<and>
   compile_mlir (Module (0::nat) []) =
     Inr [''module {'', ''  func.func private @print(i64) -> i64'', ''}''] \<and>
   ((\<exists>e. mlir_visit (Module r fs) st = Inl e) \<or>
    (\<exists>st1 lines. mlir_visit (Module r fs) st = Inr (None, st1) \<and>
       console st1 = lines @ [''  func.func private @print(i64) -> i64'', ''}'']))"
proof (intro conjI)
  show "(\<exists>e. mlir_visit (Module r fs) st = Inl e) \<or>
    (\<exists>st1 lines. mlir_visit (Module r fs) st = Inr (None, st1) \<and>
       console st1 = lines @ [''  func.func private @print(i64) -> i64'', ''}''])"
    by (cases "mlir_forEach fs (emit ''module {'' st)") (simp_all add: and_then_def emit_def)
qed (simp_all add: mlir_defs analysis_defs)

section \<open>Matches of regular expressions\<close>

lemma run_le: "i \<le> length s \<Longrightarrow> i + run c s i \<le> length s"
proof -
  assume "i \<le> length s"
  moreover have "run c s i \<le> length (drop i s)"
    unfolding run_def by (rule length_takeWhile_le)
  ultimately show ?thesis by simp
qed

lemma steps_bounds:
  assumes "j \<in> set (steps a s i)" and "i \<le> length s"
  shows "i \<le> j \<and> j \<le> length s"
proof (cases a)
  case (One c)
  with assms show ?thesis by (auto split: if_splits)
next
  case (Star c)
  with assms run_le [OF assms(2), of c] show ?thesis by auto
next
  case (Plus c)
  with assms run_le [OF assms(2), of c] show ?thesis by auto
next
  case Word_boundary
  with assms show ?thesis by (auto split: if_splits)
next
  case (Not_followed_by c)
  with assms show ?thesis by (auto split: if_splits)
qed

lemma match_from_bounds:
  "match_from r s cs = Some e \<Longrightarrow> (\<And>i. i \<in> set cs \<Longrightarrow> lo \<le> i \<and> i \<le> length s) \<Longrightarrow>
   lo \<le> e \<and> e \<le> length s"
proof (induction r s cs arbitrary: lo rule: match_from.induct)
  case (1 r s)
  then show ?case by simp
next
  case (2 s i rest)
  then show ?case by simp
next
  case (3 a r s i rest)
  have i: "lo \<le> i" "i \<le> length s" using "3.prems"(2) [of i] by simp_all
  show ?case
  proof (cases "match_from r s (steps a s i)")
    case None
    with "3.prems" have m: "match_from (a # r) s rest = Some e" by simp
    show ?thesis
    proof (rule "3.IH"(2) [OF None m])
      fix j
      assume "j \<in> set rest"
      then show "lo \<le> j \<and> j \<le> length s" using "3.prems"(2) [of j] by simp
    qed
  next
    case (Some e')
    with "3.prems" have e: "e' = e" by simp
    have "i \<le> e \<and> e \<le> length s"
    proof (rule "3.IH"(1))
      show "match_from r s (steps a s i) = Some e" using Some e by simp
    next
      fix j
      assume "j \<in> set (steps a s i)"
      then show "i \<le> j \<and> j \<le> length s" by (rule steps_bounds [OF _ i(2)])
    qed
    with i show ?thesis by simp
  qed
qed

lemma Source_match_result:
  assumes "Source_match r source = ParseResult v rest"
  shows "string rest = string source \<and> index source \<le> index rest \<and>
         index rest \<le> length (string source)"
proof -
  from assms have le: "index source \<le> length (string source)"
    by (simp add: Source_match_def split: if_splits)
  from assms obtain e where e: "match_from r (string source) [index source] = Some e"
    and rest: "rest = \<lparr>string = string source,
       index = index source + length (take (e - index source) (drop (index source) (string source)))\<rparr>"
    by (auto simp: Source_match_def Let_def split: if_splits option.splits)
  from match_from_bounds [OF e, of "index source"] le
  have "index source \<le> e \<and> e \<le> length (string source)" by simp
  then show ?thesis by (simp add: rest min_def)
qed

lemma Source_match_advances:
  assumes "Source_match (a # r) source = ParseResult v rest"
    and "(\<exists>c. a = One c) \<or> (\<exists>c. a = Plus c)"
  shows "index source < index rest"
proof -
  from assms have le: "index source \<le> length (string source)"
    by (simp add: Source_match_def split: if_splits)
  from assms obtain e where e: "match_from (a # r) (string source) [index source] = Some e"
    and rest: "rest = \<lparr>string = string source,
       index = index source + length (take (e - index source) (drop (index source) (string source)))\<rparr>"
    by (auto simp: Source_match_def Let_def split: if_splits option.splits)
  from e have e': "match_from r (string source) (steps a (string source) (index source)) = Some e"
    by (simp split: option.splits)
  have "\<And>j. j \<in> set (steps a (string source) (index source)) \<Longrightarrow>
      index source + 1 \<le> j \<and> j \<le> length (string source)"
  proof -
    fix j
    assume j: "j \<in> set (steps a (string source) (index source))"
    from assms(2) show "index source + 1 \<le> j \<and> j \<le> length (string source)"
    proof
      assume "\<exists>c. a = One c"
      then obtain c where "a = One c" ..
      with j show ?thesis by (auto split: if_splits)
    next
      assume "\<exists>c. a = Plus c"
      then obtain c where "a = Plus c" ..
      with j run_le [OF le, of c] show ?thesis by auto
    qed
  qed
  from match_from_bounds [OF e' this]
  have "index source + 1 \<le> e \<and> e \<le> length (string source)" by simp
  then show ?thesis by (simp add: rest min_def)
qed

section \<open>What the combinators keep\<close>

lemma keeps_stringD:
  "keeps_string p \<Longrightarrow> p source = Some (ParseResult v rest) \<Longrightarrow> string rest = string source"
  by (simp add: keeps_string_def)

lemma keeps_string_regexp: "keeps_string (Parser_regexp r)"
  unfolding keeps_string_def Parser_regexp_def
proof (intro allI impI)
  fix source v rest
  assume "Some (Source_match r source) = Some (ParseResult v rest)"
  then have "Source_match r source = ParseResult v rest" by simp
  from Source_match_result [OF this] show "string rest = string source" by simp
qed




lemma keeps_string_constant: "keeps_string (Parser_constant v)"
  by (simp add: keeps_string_def Parser_constant_def)

lemma keeps_string_or:
  "keeps_string p \<Longrightarrow> keeps_string q \<Longrightarrow> keeps_string (Parser_or p q)"
  by (auto simp: keeps_string_def Parser_or_def split: option.splits outcome.splits)

lemma keeps_string_bind:
  assumes "keeps_string p" and "\<And>v. keeps_string (f v)"
  shows "keeps_string (Parser_bind p f)"
  unfolding keeps_string_def
proof (intro allI impI)
  fix source v rest
  assume "Parser_bind p f source = Some (ParseResult v rest)"
  then obtain u mid where p: "p source = Some (ParseResult u mid)"
    and f: "f u mid = Some (ParseResult v rest)"
    by (auto simp: Parser_bind_def split: option.splits outcome.splits)
  from keeps_stringD [OF assms(1) p] keeps_stringD [OF assms(2) f]
  show "string rest = string source" by simp
qed

lemma keeps_string_and:
  "keeps_string p \<Longrightarrow> keeps_string q \<Longrightarrow> keeps_string (Parser_and p q)"
  by (simp add: Parser_and_def keeps_string_bind)

lemma keeps_string_map: "keeps_string p \<Longrightarrow> keeps_string (Parser_map p f)"
  by (simp add: Parser_map_def keeps_string_bind keeps_string_constant)

lemma keeps_string_maybe: "keeps_string p \<Longrightarrow> keeps_string (Parser_maybe p)"
  by (simp add: Parser_maybe_def keeps_string_or keeps_string_map keeps_string_constant)

lemma zeroOrMore_loop_keeps:
  assumes "zeroOrMore_loop p results source = Some y"
  shows "keeps_string p \<longrightarrow> (\<forall>vs rest. y = ParseResult vs rest \<longrightarrow> string rest = string source)"
proof (rule zeroOrMore_loop.raw_induct
    [where P = "\<lambda>p results source y.
       keeps_string p \<longrightarrow> (\<forall>vs rest. y = ParseResult vs rest \<longrightarrow> string rest = string source)",
     OF _ assms], goal_cases)
  case (1 loop p results source y)
  show ?case
  proof (intro impI allI)
    fix vs rest
    assume k: "keeps_string p" and y: "y = ParseResult vs rest"
    show "string rest = string source"
    proof (cases "p source")
      case None
      with 1(2) show ?thesis by simp
    next
      case (Some r)
      show ?thesis
      proof (cases r)
        case (Throw e)
        with Some 1(2) y show ?thesis by simp
      next
        case Null
        with Some 1(2) y show ?thesis by simp
      next
        case (ParseResult v mid)
        with Some 1(2) have "loop p (results @ [v]) mid = Some y" by simp
        from 1(1) [OF this] k y have "string rest = string mid" by simp
        moreover from keeps_stringD [OF k] Some ParseResult have "string mid = string source"
          by simp
        ultimately show ?thesis by simp
      qed
    qed
  qed
qed

lemma keeps_string_zeroOrMore:
  assumes "keeps_string p"
  shows "keeps_string (Parser_zeroOrMore p)"
  unfolding keeps_string_def Parser_zeroOrMore_def
proof (intro allI impI)
  fix source v rest
  assume "zeroOrMore_loop p [] source = Some (ParseResult v rest)"
  from zeroOrMore_loop_keeps [OF this] assms show "string rest = string source" by simp
qed

section \<open>Termination of zeroOrMore\<close>





section \<open>Every parse of the grammar returns\<close>

lemma parses_belowI:
  assumes "\<And>source. index source \<le> length (string source) \<Longrightarrow> remaining source < b \<Longrightarrow>
      p source = Some Null \<or>
      (\<exists>v rest. p source = Some (ParseResult v rest) \<and> string rest = string source \<and>
         index source \<le> index rest \<and> index rest \<le> length (string rest))"
  shows "parses_below b p"
  using assms by (simp add: parses_below_def)

lemma consumes_belowI:
  assumes "\<And>source. index source \<le> length (string source) \<Longrightarrow> remaining source < b \<Longrightarrow>
      p source = Some Null \<or>
      (\<exists>v rest. p source = Some (ParseResult v rest) \<and> string rest = string source \<and>
         index source < index rest \<and> index rest \<le> length (string rest))"
  shows "consumes_below b p"
  using assms by (simp add: consumes_below_def)

lemma parses_belowE:
  assumes "parses_below b p" and "index source \<le> length (string source)"
    and "remaining source < b"
  obtains (Null) "p source = Some Null"
  | (Result) v rest where "p source = Some (ParseResult v rest)"
      and "string rest = string source" and "index source \<le> index rest"
      and "index rest \<le> length (string rest)"
  using assms unfolding parses_below_def by blast

lemma consumes_belowE:
  assumes "consumes_below b p" and "index source \<le> length (string source)"
    and "remaining source < b"
  obtains (Null) "p source = Some Null"
  | (Result) v rest where "p source = Some (ParseResult v rest)"
      and "string rest = string source" and "index source < index rest"
      and "index rest \<le> length (string rest)"
  using assms unfolding consumes_below_def by blast

lemma consumes_parses: "consumes_below b p \<Longrightarrow> parses_below b p"
  unfolding consumes_below_def parses_below_def by (meson less_imp_le_nat)

lemma parses_below_mono: "parses_below b p \<Longrightarrow> b' \<le> b \<Longrightarrow> parses_below b' p"
  unfolding parses_below_def by (meson less_le_trans)

lemma consumes_below_mono: "consumes_below b p \<Longrightarrow> b' \<le> b \<Longrightarrow> consumes_below b' p"
  unfolding consumes_below_def by (meson less_le_trans)

lemma consumes_below_0: "consumes_below 0 p"
  by (simp add: consumes_below_def)

lemma remaining_after:
  "string rest = string source \<Longrightarrow> index source \<le> index rest \<Longrightarrow>
   remaining rest \<le> remaining source"
  by (simp add: remaining_def)

lemma remaining_after_strict:
  "string rest = string source \<Longrightarrow> index source < index rest \<Longrightarrow>
   index rest \<le> length (string rest) \<Longrightarrow> remaining rest < remaining source"
  by (simp add: remaining_def)

lemma parses_below_regexp: "parses_below b (Parser_regexp r)"
proof (rule parses_belowI)
  fix source
  show "Parser_regexp r source = Some Null \<or>
      (\<exists>v rest. Parser_regexp r source = Some (ParseResult v rest) \<and>
         string rest = string source \<and> index source \<le> index rest \<and>
         index rest \<le> length (string rest))"
  proof (cases "Source_match r source")
    case (Throw e)
    then show ?thesis
      by (simp add: Source_match_def Let_def split: if_splits option.splits)
  next
    case Null
    then show ?thesis by (simp add: Parser_regexp_def)
  next
    case (ParseResult v rest)
    from Source_match_result [OF this] ParseResult show ?thesis
      by (simp add: Parser_regexp_def)
  qed
qed

lemma consumes_below_regexp:
  assumes "(\<exists>c. a = One c) \<or> (\<exists>c. a = Plus c)"
  shows "consumes_below b (Parser_regexp (a # r))"
proof (rule consumes_belowI)
  fix source
  show "Parser_regexp (a # r) source = Some Null \<or>
      (\<exists>v rest. Parser_regexp (a # r) source = Some (ParseResult v rest) \<and>
         string rest = string source \<and> index source < index rest \<and>
         index rest \<le> length (string rest))"
  proof (cases "Source_match (a # r) source")
    case (Throw e)
    then show ?thesis
      by (simp add: Source_match_def Let_def split: if_splits option.splits)
  next
    case Null
    then show ?thesis by (simp add: Parser_regexp_def)
  next
    case (ParseResult v rest)
    from Source_match_result [OF this] Source_match_advances [OF this assms] ParseResult
    show ?thesis by (simp add: Parser_regexp_def)
  qed
qed

lemma parses_below_constant: "parses_below b (Parser_constant v)"
  by (rule parses_belowI) (simp add: Parser_constant_def)

lemma parses_below_or:
  assumes "parses_below b p" and "parses_below b q"
  shows "parses_below b (Parser_or p q)"
proof (rule parses_belowI)
  fix source
  assume s: "index source \<le> length (string source)" "remaining source < b"
  from assms(1) s show "Parser_or p q source = Some Null \<or>
      (\<exists>v rest. Parser_or p q source = Some (ParseResult v rest) \<and>
         string rest = string source \<and> index source \<le> index rest \<and>
         index rest \<le> length (string rest))"
  proof (cases rule: parses_belowE)
    case Null
    from assms(2) s show ?thesis
      by (cases rule: parses_belowE) (simp_all add: Parser_or_def Null)
  next
    case (Result v rest)
    then show ?thesis by (simp add: Parser_or_def)
  qed
qed

lemma consumes_below_or:
  assumes "consumes_below b p" and "consumes_below b q"
  shows "consumes_below b (Parser_or p q)"
proof (rule consumes_belowI)
  fix source
  assume s: "index source \<le> length (string source)" "remaining source < b"
  from assms(1) s show "Parser_or p q source = Some Null \<or>
      (\<exists>v rest. Parser_or p q source = Some (ParseResult v rest) \<and>
         string rest = string source \<and> index source < index rest \<and>
         index rest \<le> length (string rest))"
  proof (cases rule: consumes_belowE)
    case Null
    from assms(2) s show ?thesis
      by (cases rule: consumes_belowE) (simp_all add: Parser_or_def Null)
  next
    case (Result v rest)
    then show ?thesis by (simp add: Parser_or_def)
  qed
qed

lemma parses_below_bind:
  assumes "parses_below b p" and "\<And>v. parses_below b (f v)"
  shows "parses_below b (Parser_bind p f)"
proof (rule parses_belowI)
  fix source
  assume s: "index source \<le> length (string source)" "remaining source < b"
  from assms(1) s show "Parser_bind p f source = Some Null \<or>
      (\<exists>v rest. Parser_bind p f source = Some (ParseResult v rest) \<and>
         string rest = string source \<and> index source \<le> index rest \<and>
         index rest \<le> length (string rest))"
  proof (cases rule: parses_belowE)
    case Null
    then show ?thesis by (simp add: Parser_bind_def)
  next
    case (Result v rest)
    from Result s have r: "index rest \<le> length (string rest)" "remaining rest < b"
      using remaining_after [of rest source] by simp_all
    from assms(2) [of v] r show ?thesis
    proof (cases rule: parses_belowE)
      case Null
      with Result show ?thesis by (simp add: Parser_bind_def)
    next
      case (Result v' rest')
      with \<open>p source = Some (ParseResult v rest)\<close> \<open>string rest = string source\<close>
        \<open>index source \<le> index rest\<close>
      show ?thesis by (simp add: Parser_bind_def)
    qed
  qed
qed

lemma consumes_below_bind:
  assumes "consumes_below b p" and "\<And>v. parses_below (b - 1) (f v)"
  shows "consumes_below b (Parser_bind p f)"
proof (rule consumes_belowI)
  fix source
  assume s: "index source \<le> length (string source)" "remaining source < b"
  from assms(1) s show "Parser_bind p f source = Some Null \<or>
      (\<exists>v rest. Parser_bind p f source = Some (ParseResult v rest) \<and>
         string rest = string source \<and> index source < index rest \<and>
         index rest \<le> length (string rest))"
  proof (cases rule: consumes_belowE)
    case Null
    then show ?thesis by (simp add: Parser_bind_def)
  next
    case (Result v rest)
    from Result s have r: "index rest \<le> length (string rest)" "remaining rest < b - 1"
      using remaining_after_strict [of rest source] by simp_all
    from assms(2) [of v] r show ?thesis
    proof (cases rule: parses_belowE)
      case Null
      with Result show ?thesis by (simp add: Parser_bind_def)
    next
      case (Result v' rest')
      with \<open>p source = Some (ParseResult v rest)\<close> \<open>string rest = string source\<close>
        \<open>index source < index rest\<close>
      show ?thesis by (simp add: Parser_bind_def)
    qed
  qed
qed

lemma consumes_below_bind_late:
  assumes "parses_below b p" and "\<And>v. consumes_below b (f v)"
  shows "consumes_below b (Parser_bind p f)"
proof (rule consumes_belowI)
  fix source
  assume s: "index source \<le> length (string source)" "remaining source < b"
  from assms(1) s show "Parser_bind p f source = Some Null \<or>
      (\<exists>v rest. Parser_bind p f source = Some (ParseResult v rest) \<and>
         string rest = string source \<and> index source < index rest \<and>
         index rest \<le> length (string rest))"
  proof (cases rule: parses_belowE)
    case Null
    then show ?thesis by (simp add: Parser_bind_def)
  next
    case (Result v rest)
    from Result s have r: "index rest \<le> length (string rest)" "remaining rest < b"
      using remaining_after [of rest source] by simp_all
    from assms(2) [of v] r show ?thesis
    proof (cases rule: consumes_belowE)
      case Null
      with Result show ?thesis by (simp add: Parser_bind_def)
    next
      case (Result v' rest')
      with \<open>p source = Some (ParseResult v rest)\<close> \<open>string rest = string source\<close>
        \<open>index source \<le> index rest\<close>
      show ?thesis by (simp add: Parser_bind_def)
    qed
  qed
qed

lemma zeroOrMore_loop_below:
  assumes c: "consumes_below b p"
  shows "index source \<le> length (string source) \<Longrightarrow> remaining source < b \<Longrightarrow>
    \<exists>vs rest. zeroOrMore_loop p results source = Some (ParseResult (results @ vs) rest) \<and>
       string rest = string source \<and> index source \<le> index rest \<and>
       index rest \<le> length (string rest)"
proof (induction "remaining source" arbitrary: results source rule: less_induct)
  case less
  from c less.prems show ?case
  proof (cases rule: consumes_belowE)
    case Null
    then have "zeroOrMore_loop p results source = Some (ParseResult (results @ []) source)"
      by (subst zeroOrMore_loop.simps) simp
    with less.prems show ?thesis by blast
  next
    case (Result v mid)
    from Result less.prems have lt: "remaining mid < remaining source"
      using remaining_after_strict [of mid source] by simp
    with less.prems have b: "remaining mid < b" by simp
    from less.hyps [OF lt \<open>index mid \<le> length (string mid)\<close> b, of "results @ [v]"]
    obtain vs rest where
      l: "zeroOrMore_loop p (results @ [v]) mid = Some (ParseResult ((results @ [v]) @ vs) rest)"
      and r: "string rest = string mid" "index mid \<le> index rest"
        "index rest \<le> length (string rest)"
      by blast
    from Result l have "zeroOrMore_loop p results source =
        Some (ParseResult (results @ (v # vs)) rest)"
      by (subst zeroOrMore_loop.simps) simp
    moreover from r Result have "string rest = string source" "index source \<le> index rest"
      by simp_all
    ultimately show ?thesis using r(3) by blast
  qed
qed

lemma zeroOrMore_below:
  assumes "consumes_below b p" and "index source \<le> length (string source)"
    and "remaining source < b"
  shows "\<exists>vs rest. Parser_zeroOrMore p source = Some (ParseResult vs rest) \<and>
       string rest = string source \<and> index source \<le> index rest \<and>
       index rest \<le> length (string rest)"
  using zeroOrMore_loop_below [OF assms, of "[]"] by (simp add: Parser_zeroOrMore_def)

lemma parses_below_zeroOrMore:
  "consumes_below b p \<Longrightarrow> parses_below b (Parser_zeroOrMore p)"
  by (rule parses_belowI) (use zeroOrMore_below in blast)

lemma parses_below_and:
  "parses_below b p \<Longrightarrow> parses_below b q \<Longrightarrow> parses_below b (Parser_and p q)"
  by (simp add: Parser_and_def parses_below_bind)

lemma consumes_below_and:
  "consumes_below b p \<Longrightarrow> parses_below (b - 1) q \<Longrightarrow> consumes_below b (Parser_and p q)"
  by (simp add: Parser_and_def consumes_below_bind)

lemma parses_below_map: "parses_below b p \<Longrightarrow> parses_below b (Parser_map p f)"
  by (simp add: Parser_map_def parses_below_bind parses_below_constant)

lemma consumes_below_map: "consumes_below b p \<Longrightarrow> consumes_below b (Parser_map p f)"
  by (simp add: Parser_map_def consumes_below_bind parses_below_constant)

lemma parses_below_maybe: "parses_below b p \<Longrightarrow> parses_below b (Parser_maybe p)"
  by (simp add: Parser_maybe_def parses_below_or parses_below_map parses_below_constant)

lemma parses_below_ignored: "parses_below b ignored"
  unfolding ignored_def whitespace_def comments_def literal_def
  by (intro parses_below_zeroOrMore consumes_below_or) (simp_all add: consumes_below_regexp)

lemma consumes_below_token:
  assumes "(\<exists>c. a = One c) \<or> (\<exists>c. a = Plus c)"
  shows "consumes_below b (token (a # r))"
  unfolding token_def
  by (intro consumes_below_bind consumes_below_regexp assms parses_below_and
        parses_below_ignored parses_below_constant)

lemma consumes_below_tokens:
  "consumes_below b FUNCTION" "consumes_below b IF" "consumes_below b ELSE"
  "consumes_below b RETURN" "consumes_below b VAR" "consumes_below b WHILE"
  "consumes_below b ASSIGN" "consumes_below b COMMA" "consumes_below b SEMICOLON"
  "consumes_below b LEFT_PAREN" "consumes_below b RIGHT_PAREN"
  "consumes_below b LEFT_BRACE" "consumes_below b RIGHT_BRACE"
  "consumes_below b NUMBER" "consumes_below b ID" "consumes_below b id_parser"
  "consumes_below b NOT" "consumes_below b EQUAL" "consumes_below b NOT_EQUAL"
  "consumes_below b PLUS" "consumes_below b MINUS" "consumes_below b STAR"
  "consumes_below b SLASH"
  by (simp_all add: FUNCTION_def IF_def ELSE_def RETURN_def VAR_def WHILE_def ASSIGN_def
        COMMA_def SEMICOLON_def LEFT_PAREN_def RIGHT_PAREN_def LEFT_BRACE_def RIGHT_BRACE_def
        NUMBER_def ID_def id_parser_def NOT_def EQUAL_def NOT_EQUAL_def PLUS_def MINUS_def
        STAR_def SLASH_def literal_def consumes_below_token consumes_below_map)

lemmas parses_below_tokens = consumes_below_tokens [THEN consumes_parses]

lemmas parses_below_rules = parses_below_bind parses_below_and parses_below_or
  parses_below_map parses_below_maybe parses_below_constant parses_below_zeroOrMore
  parses_below_tokens

lemma parses_below_args:
  assumes "parses_below n E"
  shows "parses_below n (args E)"
proof -
  have "consumes_below n (Parser_and COMMA E)"
    by (intro consumes_below_and consumes_below_tokens parses_below_mono [OF assms]) simp
  then show ?thesis
    unfolding args_def by (intro parses_below_rules assms)
qed

lemma consumes_below_call:
  assumes "parses_below n E"
  shows "consumes_below (Suc n) (call E)"
  unfolding call_def
  by (rule consumes_below_bind, rule consumes_below_tokens)
     (simp, intro parses_below_rules parses_below_args assms)

lemma consumes_below_atom:
  assumes "parses_below n E"
  shows "consumes_below (Suc n) (atom E)"
proof -
  have 1: "consumes_below (Suc n) (Parser_and LEFT_PAREN E)"
    by (intro consumes_below_and consumes_below_tokens) (simp add: assms)
  have 2: "consumes_below (Suc n)
      (Parser_bind (Parser_and LEFT_PAREN E) (\<lambda>e. Parser_and RIGHT_PAREN (Parser_constant e)))"
    by (rule consumes_below_bind [OF 1]) (intro parses_below_rules)
  show ?thesis
    unfolding atom_def
    by (intro consumes_below_or consumes_below_call assms consumes_below_tokens 2)
qed

lemma consumes_below_unary:
  assumes "parses_below n E"
  shows "consumes_below (Suc n) (unary E)"
  unfolding unary_def
  by (intro consumes_below_bind_late consumes_below_map consumes_below_atom assms
        parses_below_rules)

lemma consumes_below_infix:
  assumes "consumes_below b operatorParser" and "consumes_below b termParser"
  shows "consumes_below b (infix_parser operatorParser termParser)"
proof -
  have t: "parses_below (b - 1 - 1) termParser"
    by (rule parses_below_mono [OF consumes_parses [OF assms(2)]]) simp
  have inner: "consumes_below (b - 1)
      (Parser_bind operatorParser (\<lambda>operator.
         Parser_bind termParser (\<lambda>term. Parser_constant (operator, term))))"
    by (rule consumes_below_bind, rule consumes_below_mono [OF assms(1)], simp)
       (intro parses_below_rules t)
  show ?thesis
    unfolding infix_parser_def
    by (rule consumes_below_bind [OF assms(2)])
       (intro parses_below_map parses_below_zeroOrMore inner)
qed

lemma consumes_below_comparison:
  assumes "parses_below n E"
  shows "consumes_below (Suc n) (comparison E)"
  unfolding comparison_def sum_parser_def product_parser_def
  by (intro consumes_below_infix consumes_below_or consumes_below_tokens
        consumes_below_unary assms)

lemma consumes_below_expression: "consumes_below n (expression n)"
proof (induction n)
  case 0
  show ?case by (rule consumes_below_0)
next
  case (Suc n)
  show ?case by (simp add: consumes_below_comparison consumes_parses [OF Suc])
qed

lemma consumes_below_blockStatement:
  assumes "consumes_below n S"
  shows "consumes_below (Suc n) (blockStatement S)"
proof -
  have "consumes_below (Suc n) (Parser_and LEFT_BRACE (Parser_zeroOrMore S))"
    by (intro consumes_below_and consumes_below_tokens) (simp add: parses_below_zeroOrMore assms)
  then show ?thesis
    unfolding blockStatement_def
    by (rule consumes_below_bind) (intro parses_below_rules)
qed

lemma consumes_below_statementParser:
  assumes E: "consumes_below (Suc n) E" and S: "consumes_below n S"
  shows "consumes_below (Suc n) (statementParser E S)"
proof -
  have En: "parses_below n E"
    by (rule parses_below_mono [OF consumes_parses [OF E]]) simp
  have Sn: "parses_below n S" by (rule consumes_parses [OF S])
  have ret: "consumes_below (Suc n) (returnStatement E)"
    unfolding returnStatement_def
    by (rule consumes_below_bind, intro consumes_below_and consumes_below_tokens)
       (simp add: En, intro parses_below_rules)
  have ex: "consumes_below (Suc n) (expressionStatement E)"
    unfolding expressionStatement_def
    by (rule consumes_below_bind [OF E]) (intro parses_below_rules)
  have paren: "consumes_below (Suc n) (Parser_and (Parser_and K LEFT_PAREN) E)"
    if "\<And>b. consumes_below b K" for K :: "string Parser"
    by (intro consumes_below_and that parses_below_tokens) (simp add: En)
  have iff: "consumes_below (Suc n) (ifStatement E S)"
    unfolding ifStatement_def
    by (rule consumes_below_bind, rule paren, rule consumes_below_tokens)
       (simp, intro parses_below_rules Sn)
  have whl: "consumes_below (Suc n) (whileStatement E S)"
    unfolding whileStatement_def
    by (rule consumes_below_bind, rule paren, rule consumes_below_tokens)
       (simp, intro parses_below_rules Sn)
  have var: "consumes_below (Suc n) (varStatement E)"
    unfolding varStatement_def
    by (rule consumes_below_bind, intro consumes_below_and consumes_below_tokens
          parses_below_tokens)
       (simp, intro parses_below_rules En)
  have asg: "consumes_below (Suc n) (assignmentStatement E)"
    unfolding assignmentStatement_def
    by (rule consumes_below_bind, rule consumes_below_tokens)
       (simp, intro parses_below_rules En)
  show ?thesis
    unfolding statementParser_def
    by (intro consumes_below_or ret iff whl var asg ex consumes_below_blockStatement S)
qed

lemma consumes_below_statement: "consumes_below n (statement n)"
proof (induction n)
  case 0
  show ?case by (rule consumes_below_0)
next
  case (Suc n)
  show ?case
    using consumes_below_statementParser [OF consumes_below_expression [of "Suc n"] Suc]
    by simp
qed

lemma consumes_below_functionDecl:
  assumes "consumes_below n S"
  shows "consumes_below (Suc n) (functionDecl S)"
proof -
  have "consumes_below b (Parser_and COMMA ID)" for b
    by (intro consumes_below_and consumes_below_tokens parses_below_tokens)
  then have params: "parses_below b parameters" for b
    unfolding parameters_def by (intro parses_below_rules)
  have blk: "parses_below n (blockStatement S)"
    by (rule parses_below_mono
          [OF consumes_parses [OF consumes_below_blockStatement [OF assms]]]) simp
  show ?thesis
    unfolding functionDecl_def
    by (intro consumes_below_and consumes_below_tokens)
       (simp, intro parses_below_rules params blk)
qed

lemma parser_returns:
  assumes "length s \<le> n"
  shows "\<exists>functions k. k \<le> length s \<and>
    parser n \<lparr>string = s, index = 0\<rparr> =
      Some (ParseResult (Module () functions) \<lparr>string = s, index = k\<rparr>)"
proof -
  let ?source = "\<lparr>string = s, index = 0\<rparr>"
  have b: "remaining ?source < Suc n" using assms by (simp add: remaining_def)
  have "\<exists>vs rest. ignored ?source = Some (ParseResult vs rest) \<and>
      string rest = string ?source \<and> index ?source \<le> index rest \<and>
      index rest \<le> length (string rest)"
    unfolding ignored_def
    by (rule zeroOrMore_below [OF _ _ b])
       (simp_all add: whitespace_def comments_def literal_def consumes_below_or
          consumes_below_regexp)
  then obtain vs mid where i: "ignored ?source = Some (ParseResult vs mid)"
    and m: "string mid = s" "index mid \<le> length (string mid)" by auto
  from m b have bm: "remaining mid < Suc n" by (simp add: remaining_def)
  from zeroOrMore_below
    [OF consumes_below_functionDecl [OF consumes_below_statement [of n]] m(2) bm]
  obtain fs rest where
    z: "Parser_zeroOrMore (functionDecl (statement n)) mid = Some (ParseResult fs rest)"
    and r: "string rest = string mid" "index rest \<le> length (string rest)" by blast
  from i z have "parser n ?source = Some (ParseResult (Module () fs) rest)"
    by (simp add: parser_def Parser_map_def Parser_and_def Parser_bind_def Parser_constant_def)
  moreover from r m have "rest = \<lparr>string = s, index = index rest\<rparr>" "index rest \<le> length s"
    by simp_all
  ultimately show ?thesis by metis
qed

section \<open>The unrolling of the grammar does not matter\<close>

lemma extendsD: "extends q p \<Longrightarrow> p source = Some r \<Longrightarrow> q source = Some r"
  by (simp add: extends_def)

lemma extends_refl: "extends p p"
  by (simp add: extends_def)

lemma extends_trans: "extends r q \<Longrightarrow> extends q p \<Longrightarrow> extends r p"
  by (simp add: extends_def)

lemma extends_None: "extends q (\<lambda>source. None)"
  by (simp add: extends_def)

lemma extends_or:
  assumes "extends p' p" and "extends q' q"
  shows "extends (Parser_or p' q') (Parser_or p q)"
  unfolding extends_def
proof (intro allI impI)
  fix source r
  assume a: "Parser_or p q source = Some r"
  then obtain x where x: "p source = Some x"
    by (auto simp: Parser_or_def split: option.splits)
  note x' = extendsD [OF assms(1) x]
  show "Parser_or p' q' source = Some r"
  proof (cases x)
    case (Throw e)
    with a x x' show ?thesis by (auto simp: Parser_or_def)
  next
    case Null
    with a x have "q source = Some r" by (simp add: Parser_or_def)
    from extendsD [OF assms(2) this] x' Null show ?thesis by (simp add: Parser_or_def)
  next
    case (ParseResult v rest)
    with a x x' show ?thesis by (auto simp: Parser_or_def)
  qed
qed

lemma extends_bind:
  assumes "extends p' p" and "\<And>v. extends (f' v) (f v)"
  shows "extends (Parser_bind p' f') (Parser_bind p f)"
  unfolding extends_def
proof (intro allI impI)
  fix source r
  assume a: "Parser_bind p f source = Some r"
  then obtain x where x: "p source = Some x"
    by (auto simp: Parser_bind_def split: option.splits)
  from extendsD [OF assms(1) x] a x show "Parser_bind p' f' source = Some r"
  proof (cases x)
    case (ParseResult v rest)
    with a x have "f v rest = Some r" by (simp add: Parser_bind_def)
    from extendsD [OF assms(2) this] extendsD [OF assms(1) x] ParseResult
    show ?thesis by (simp add: Parser_bind_def)
  qed (simp_all add: Parser_bind_def)
qed

lemma extends_and: "extends p' p \<Longrightarrow> extends q' q \<Longrightarrow> extends (Parser_and p' q') (Parser_and p q)"
  by (simp add: Parser_and_def extends_bind)

lemma extends_map: "extends p' p \<Longrightarrow> extends (Parser_map p' f) (Parser_map p f)"
  by (simp add: Parser_map_def extends_bind extends_refl)

lemma zeroOrMore_loop_extends:
  assumes "zeroOrMore_loop p results source = Some y"
  shows "\<forall>p'. extends p' p \<longrightarrow> zeroOrMore_loop p' results source = Some y"
proof (rule zeroOrMore_loop.raw_induct
    [where P = "\<lambda>p results source y.
       \<forall>p'. extends p' p \<longrightarrow> zeroOrMore_loop p' results source = Some y",
     OF _ assms], goal_cases)
  case (1 loop p results source y)
  show ?case
  proof (intro allI impI)
    fix p' :: "'a Parser"
    assume e: "extends p' p"
    from 1(2) obtain x where x: "p source = Some x"
      by (auto split: option.splits)
    note x' = extendsD [OF e x]
    show "zeroOrMore_loop p' results source = Some y"
    proof (cases x)
      case (Throw err)
      with 1(2) x x' show ?thesis by (subst zeroOrMore_loop.simps) simp
    next
      case Null
      with 1(2) x x' show ?thesis by (subst zeroOrMore_loop.simps) simp
    next
      case (ParseResult v rest)
      with 1(2) x have "loop p (results @ [v]) rest = Some y" by simp
      from 1(1) [OF this] e have "zeroOrMore_loop p' (results @ [v]) rest = Some y" by simp
      with x' ParseResult show ?thesis by (subst zeroOrMore_loop.simps) simp
    qed
  qed
qed

lemma extends_zeroOrMore:
  assumes "extends p' p"
  shows "extends (Parser_zeroOrMore p') (Parser_zeroOrMore p)"
  unfolding extends_def Parser_zeroOrMore_def
proof (intro allI impI)
  fix source r
  assume "zeroOrMore_loop p [] source = Some r"
  from zeroOrMore_loop_extends [OF this] assms
  show "zeroOrMore_loop p' [] source = Some r" by simp
qed

lemmas extends_rules = extends_or extends_bind extends_and extends_map extends_zeroOrMore
  extends_refl

lemma extends_comparison:
  assumes "extends E' E"
  shows "extends (comparison E') (comparison E)"
  unfolding comparison_def sum_parser_def product_parser_def infix_parser_def unary_def
    atom_def call_def args_def
  by (intro extends_rules assms)

lemma extends_blockStatement:
  assumes "extends S' S"
  shows "extends (blockStatement S') (blockStatement S)"
  unfolding blockStatement_def by (intro extends_rules assms)

lemma extends_statementParser:
  assumes "extends E' E" and "extends S' S"
  shows "extends (statementParser E' S') (statementParser E S)"
  unfolding statementParser_def returnStatement_def ifStatement_def whileStatement_def
    varStatement_def assignmentStatement_def expressionStatement_def
  by (intro extends_rules extends_blockStatement assms)

lemma extends_expression_Suc: "extends (expression (Suc n)) (expression n)"
proof (induction n)
  case 0
  show ?case by (simp add: extends_None)
next
  case (Suc n)
  then show ?case by (simp add: extends_comparison)
qed

lemma extends_statement_Suc: "extends (statement (Suc n)) (statement n)"
proof (induction n)
  case 0
  show ?case by (simp add: extends_None)
next
  case (Suc n)
  from extends_statementParser [OF extends_expression_Suc [of "Suc n"] Suc]
  show ?case by (simp only: statement.simps)
qed

lemma extends_statement: "n \<le> m \<Longrightarrow> extends (statement m) (statement n)"
proof (induction rule: dec_induct)
  case base
  show ?case by (rule extends_refl)
next
  case (step k)
  show ?case by (rule extends_trans [OF extends_statement_Suc step.IH])
qed

lemma extends_parser:
  assumes "n \<le> m"
  shows "extends (parser m) (parser n)"
  unfolding parser_def functionDecl_def
  by (intro extends_rules extends_blockStatement extends_statement assms)

lemma parser_fuel:
  assumes "length s \<le> n"
  shows "parser n \<lparr>string = s, index = 0\<rparr> = parser (length s) \<lparr>string = s, index = 0\<rparr>"
proof -
  from parser_returns [of s "length s"] obtain r
    where r: "parser (length s) \<lparr>string = s, index = 0\<rparr> = Some r" by auto
  from extendsD [OF extends_parser [OF assms] r] r show ?thesis by simp
qed

section \<open>The grammar keeps the string\<close>

lemma keeps_string_None: "keeps_string (\<lambda>source. None)"
  by (simp add: keeps_string_def)

lemmas keeps_string_rules = keeps_string_or keeps_string_bind keeps_string_and
  keeps_string_map keeps_string_maybe keeps_string_zeroOrMore keeps_string_regexp
  keeps_string_constant

lemma keeps_string_token: "keeps_string (token r)"
  unfolding token_def ignored_def whitespace_def comments_def
  by (intro keeps_string_rules)

lemma keeps_string_tokens:
  "keeps_string FUNCTION" "keeps_string IF" "keeps_string ELSE"
  "keeps_string RETURN" "keeps_string VAR" "keeps_string WHILE"
  "keeps_string ASSIGN" "keeps_string COMMA" "keeps_string SEMICOLON"
  "keeps_string LEFT_PAREN" "keeps_string RIGHT_PAREN"
  "keeps_string LEFT_BRACE" "keeps_string RIGHT_BRACE"
  "keeps_string NUMBER" "keeps_string ID" "keeps_string id_parser"
  "keeps_string NOT" "keeps_string EQUAL" "keeps_string NOT_EQUAL"
  "keeps_string PLUS" "keeps_string MINUS" "keeps_string STAR"
  "keeps_string SLASH"
  by (simp_all add: FUNCTION_def IF_def ELSE_def RETURN_def VAR_def WHILE_def ASSIGN_def
        COMMA_def SEMICOLON_def LEFT_PAREN_def RIGHT_PAREN_def LEFT_BRACE_def RIGHT_BRACE_def
        NUMBER_def ID_def id_parser_def NOT_def EQUAL_def NOT_EQUAL_def PLUS_def MINUS_def
        STAR_def SLASH_def keeps_string_token keeps_string_map)

lemma keeps_string_comparison:
  assumes "keeps_string E"
  shows "keeps_string (comparison E)"
  unfolding comparison_def sum_parser_def product_parser_def infix_parser_def unary_def
    atom_def call_def args_def
  by (intro keeps_string_rules keeps_string_tokens assms)

lemma keeps_string_blockStatement:
  assumes "keeps_string S"
  shows "keeps_string (blockStatement S)"
  unfolding blockStatement_def by (intro keeps_string_rules keeps_string_tokens assms)

lemma keeps_string_statementParser:
  assumes "keeps_string E" and "keeps_string S"
  shows "keeps_string (statementParser E S)"
  unfolding statementParser_def returnStatement_def ifStatement_def whileStatement_def
    varStatement_def assignmentStatement_def expressionStatement_def
  by (intro keeps_string_rules keeps_string_tokens keeps_string_blockStatement assms)

lemma keeps_string_expression: "keeps_string (expression n)"
  by (induction n) (simp_all add: keeps_string_None keeps_string_comparison)

lemma keeps_string_statement: "keeps_string (statement n)"
proof (induction n)
  case 0
  show ?case by (simp add: keeps_string_None)
next
  case (Suc n)
  from keeps_string_statementParser [OF keeps_string_expression [of "Suc n"] Suc]
  show ?case by (simp only: statement.simps)
qed

lemma keeps_string_parser: "keeps_string (parser n)"
  unfolding parser_def functionDecl_def parameters_def ignored_def whitespace_def comments_def
  by (intro keeps_string_rules keeps_string_tokens keeps_string_blockStatement
        keeps_string_statement)

section \<open>Parsing to completion\<close>

lemmas combinator_apply = Parser_regexp_def Parser_constant_def Parser_error_def Parser_or_def
  Parser_zeroOrMore_def Parser_bind_def Parser_and_def [THEN fun_cong]
  Parser_map_def [THEN fun_cong] Parser_maybe_def [THEN fun_cong]

lemmas token_apply = whitespace_def [THEN fun_cong] comments_def [THEN fun_cong]
  ignored_def [THEN fun_cong] token_def [THEN fun_cong]
  FUNCTION_def [THEN fun_cong] IF_def [THEN fun_cong] ELSE_def [THEN fun_cong]
  RETURN_def [THEN fun_cong] VAR_def [THEN fun_cong] WHILE_def [THEN fun_cong]
  ASSIGN_def [THEN fun_cong] COMMA_def [THEN fun_cong] SEMICOLON_def [THEN fun_cong]
  LEFT_PAREN_def [THEN fun_cong] RIGHT_PAREN_def [THEN fun_cong]
  LEFT_BRACE_def [THEN fun_cong] RIGHT_BRACE_def [THEN fun_cong]
  NUMBER_def [THEN fun_cong] ID_def [THEN fun_cong] id_parser_def [THEN fun_cong]
  NOT_def [THEN fun_cong] EQUAL_def [THEN fun_cong] NOT_EQUAL_def [THEN fun_cong]
  PLUS_def [THEN fun_cong] MINUS_def [THEN fun_cong] STAR_def [THEN fun_cong]
  SLASH_def [THEN fun_cong]

lemmas grammar_apply = args_def [THEN fun_cong] call_def [THEN fun_cong]
  atom_def [THEN fun_cong] unary_def [THEN fun_cong] infix_parser_def [THEN fun_cong]
  product_parser_def [THEN fun_cong] sum_parser_def [THEN fun_cong]
  comparison_def [THEN fun_cong] returnStatement_def [THEN fun_cong]
  expressionStatement_def [THEN fun_cong] ifStatement_def [THEN fun_cong]
  whileStatement_def [THEN fun_cong] varStatement_def [THEN fun_cong]
  assignmentStatement_def [THEN fun_cong] blockStatement_def [THEN fun_cong]
  parameters_def [THEN fun_cong] functionDecl_def [THEN fun_cong]
  statementParser_def [THEN fun_cong] parser_def [THEN fun_cong]

lemmas regexp_eval = Source_match_def literal_def run_def word_at_def word_char_def letter_def
  digit_def space_char_def not_line_end_def Let_def

lemmas parser_eval = combinator_apply token_apply grammar_apply regexp_eval
  zeroOrMore_loop.simps

lemma parse_empty_function:
  "parser (Suc n) \<lparr>string = ''function f(){}'', index = 0\<rparr> =
     Some (ParseResult (Module () [Function () ''f'' [] (Block () [])])
            \<lparr>string = ''function f(){}'', index = 14\<rparr>)"
  by (simp add: parser_eval)

lemma parse_stray_brace:
  "parser (Suc n) \<lparr>string = ''function f(){}}'', index = 0\<rparr> =
     Some (ParseResult (Module () [Function () ''f'' [] (Block () [])])
            \<lparr>string = ''function f(){}}'', index = 14\<rparr>)"
  by (simp add: parser_eval)

lemma parseStringToCompletion_accepts:
  assumes "keeps_string p"
  shows "parseStringToCompletion p s = Some (Inr v) \<longleftrightarrow>
     p \<lparr>string = s, index = 0\<rparr> = Some (ParseResult v \<lparr>string = s, index = length s\<rparr>)"
proof (cases "p \<lparr>string = s, index = 0\<rparr>")
  case None
  then show ?thesis by (simp add: parseStringToCompletion_def)
next
  case (Some r)
  show ?thesis
  proof (cases r)
    case (Throw e)
    with Some show ?thesis by (simp add: parseStringToCompletion_def)
  next
    case Null
    with Some show ?thesis by (simp add: parseStringToCompletion_def)
  next
    case (ParseResult u rest)
    obtain str i where rest: "rest = \<lparr>string = str, index = i\<rparr>" by (cases rest) simp
    from Some ParseResult keeps_stringD [OF assms, of "\<lparr>string = s, index = 0\<rparr>" u rest]
    have "string rest = s" by simp
    with rest have str: "str = s" by simp
    from Some ParseResult show ?thesis
      unfolding rest str by (auto simp: parseStringToCompletion_def)
  qed
qed

text \<open>
  \<^bold>\<open>C7.\<close> For a parser that keeps the string, \<^verbatim>\<open>parseStringToCompletion\<close> returns \<open>v\<close>
  exactly when the parse from index 0 returns \<open>v\<close> with the index at the end of the input;
  a parse that stops at another index \<open>k\<close> throws \<^verbatim>\<open>Parse error at index k\<close>, and a parse
  that returns \<^verbatim>\<open>null\<close> throws \<^verbatim>\<open>Parse error at index 0\<close>. For the parser of the grammar
  and every input \<open>s\<close>, with the grammar unrolled at least \<open>length s\<close> times (the outcome
  is the same for all these): either the parse consumes the whole input and its module is
  returned, or it stops at some \<open>k\<close> before the end and \<^verbatim>\<open>Parse error at index k\<close> is
  thrown.
\<close>

theorem parseStringToCompletion_consumes_entire_input:
  fixes p :: "'a Parser"
  shows
    "(keeps_string p \<longrightarrow>
        (parseStringToCompletion p s = Some (Inr v) \<longleftrightarrow>
           p \<lparr>string = s, index = 0\<rparr> =
             Some (ParseResult v \<lparr>string = s, index = length s\<rparr>)) \<and>
        (\<forall>k. p \<lparr>string = s, index = 0\<rparr> = Some (ParseResult v \<lparr>string = s, index = k\<rparr>) \<and>
             k \<noteq> length s \<longrightarrow>
           parseStringToCompletion p s =
             Some (Inl (Error (''Parse error at index '' @ show_nat k)))) \<and>
        (p \<lparr>string = s, index = 0\<rparr> = Some Null \<longrightarrow>
           parseStringToCompletion p s = Some (Inl (Error ''Parse error at index 0'')))) \<and>
     (length s \<le> n \<longrightarrow>
        parseStringToCompletion (parser n) s = parseStringToCompletion (parser (length s)) s \<and>
        ((\<exists>m. parser n \<lparr>string = s, index = 0\<rparr> =
                Some (ParseResult m \<lparr>string = s, index = length s\<rparr>) \<and>
              parseStringToCompletion (parser n) s = Some (Inr m)) \<or>
         (\<exists>m k. k < length s \<and>
              parser n \<lparr>string = s, index = 0\<rparr> =
                Some (ParseResult m \<lparr>string = s, index = k\<rparr>) \<and>
              parseStringToCompletion (parser n) s =
                Some (Inl (Error (''Parse error at index '' @ show_nat k))))))"
proof (intro conjI impI allI)
  assume "keeps_string p"
  then show "parseStringToCompletion p s = Some (Inr v) \<longleftrightarrow>
      p \<lparr>string = s, index = 0\<rparr> = Some (ParseResult v \<lparr>string = s, index = length s\<rparr>)"
    by (rule parseStringToCompletion_accepts)
next
  fix k
  assume "p \<lparr>string = s, index = 0\<rparr> = Some (ParseResult v \<lparr>string = s, index = k\<rparr>) \<and>
      k \<noteq> length s"
  then show "parseStringToCompletion p s =
      Some (Inl (Error (''Parse error at index '' @ show_nat k)))"
    by (simp add: parseStringToCompletion_def)
next
  assume "p \<lparr>string = s, index = 0\<rparr> = Some Null"
  then show "parseStringToCompletion p s = Some (Inl (Error ''Parse error at index 0''))"
    by (simp add: parseStringToCompletion_def)
next
  assume "length s \<le> n"
  from parser_fuel [OF this] show "parseStringToCompletion (parser n) s =
      parseStringToCompletion (parser (length s)) s"
    by (simp only: parseStringToCompletion_def)
next
  assume "length s \<le> n"
  from parser_returns [OF this] obtain fs k where k: "k \<le> length s"
    and r: "parser n \<lparr>string = s, index = 0\<rparr> =
      Some (ParseResult (Module () fs) \<lparr>string = s, index = k\<rparr>)" by blast
  show "(\<exists>m. parser n \<lparr>string = s, index = 0\<rparr> =
            Some (ParseResult m \<lparr>string = s, index = length s\<rparr>) \<and>
          parseStringToCompletion (parser n) s = Some (Inr m)) \<or>
        (\<exists>m k. k < length s \<and>
          parser n \<lparr>string = s, index = 0\<rparr> =
            Some (ParseResult m \<lparr>string = s, index = k\<rparr>) \<and>
          parseStringToCompletion (parser n) s =
            Some (Inl (Error (''Parse error at index '' @ show_nat k))))"
  proof (cases "k = length s")
    case True
    with r show ?thesis by (simp add: parseStringToCompletion_def)
  next
    case False
    with k have "k < length s" by simp
    moreover from r False have "parseStringToCompletion (parser n) s =
        Some (Inl (Error (''Parse error at index '' @ show_nat k)))"
      by (simp add: parseStringToCompletion_def)
    ultimately show ?thesis using r by blast
  qed
qed

theorem parseStringToCompletion_consumes_entire_input_witness:
  "parseStringToCompletion (parser 14) ''function f(){}'' =
     Some (Inr (Module () [Function () ''f'' [] (Block () [])])) \<and>
   parseStringToCompletion (parser 15) ''function f(){}}'' =
     Some (Inl (Error ''Parse error at index 14'')) \<and>
   parseStringToCompletion IF ''x'' = Some (Inl (Error ''Parse error at index 0''))"
proof (intro conjI)
  let ?m = "Module () [Function () ''f'' [] (Block () [])]"
  have 1: "parser 14 \<lparr>string = ''function f(){}'', index = 0\<rparr> =
      Some (ParseResult ?m \<lparr>string = ''function f(){}'', index = 14\<rparr>)"
    using parse_empty_function [of 13] by simp
  have 2: "parser 15 \<lparr>string = ''function f(){}}'', index = 0\<rparr> =
      Some (ParseResult ?m \<lparr>string = ''function f(){}}'', index = 14\<rparr>)"
    using parse_stray_brace [of 14] by simp
  have 3: "IF \<lparr>string = ''x'', index = 0\<rparr> = Some Null"
    by (simp add: parser_eval)
  show "parseStringToCompletion (parser 14) ''function f(){}'' = Some (Inr ?m)"
    using parseStringToCompletion_consumes_entire_input
      [of "parser 14" "''function f(){}''" ?m 14] keeps_string_parser [of 14] 1
    by simp
  show "parseStringToCompletion (parser 15) ''function f(){}}'' =
      Some (Inl (Error ''Parse error at index 14''))"
    using parseStringToCompletion_consumes_entire_input
      [of "parser 15" "''function f(){}}''" ?m 15] keeps_string_parser [of 15] 2
    by (simp add: show_nat_def number_text_def decimal.simps)
  show "parseStringToCompletion IF ''x'' = Some (Inl (Error ''Parse error at index 0''))"
    using parseStringToCompletion_consumes_entire_input [of IF "''x''" "''if''" 1]
      keeps_string_tokens(2) 3
    by simp
qed

section \<open>Boundaries of the tokens\<close>

lemma drop_literal:
  assumes "i < length s"
  shows "take (Suc k) (drop i s) = c # cs \<longleftrightarrow> s ! i = c \<and> take k (drop (Suc i) s) = cs"
  using assms by (simp add: Cons_nth_drop_Suc [symmetric])

lemma match_from_literal:
  "i \<le> length s \<Longrightarrow>
   match_from (literal kw @ r) s [i] =
     (if i + length kw \<le> length s \<and> take (length kw) (drop i s) = kw
      then match_from r s [i + length kw] else None)"
proof (induction kw arbitrary: i)
  case Nil
  then show ?case by (simp add: literal_def)
next
  case (Cons c cs)
  show ?case
  proof (cases "i < length s \<and> s ! i = c")
    case True
    then have i: "Suc i \<le> length s" by simp
    have "match_from (literal (c # cs) @ r) s [i] = match_from (literal cs @ r) s [Suc i]"
      using True by (simp add: literal_def split: option.splits)
    also note Cons.IH [OF i]
    finally show ?thesis using True drop_literal [of i s "length cs" c cs] by auto
  next
    case False
    then have m: "match_from (literal (c # cs) @ r) s [i] = None"
      by (auto simp: literal_def)
    have n: "\<not> (i + length (c # cs) \<le> length s \<and> take (length (c # cs)) (drop i s) = c # cs)"
    proof (cases "i < length s")
      case True
      with False drop_literal [OF True, of "length cs" c cs] show ?thesis by simp
    next
      case False
      then show ?thesis by simp
    qed
    show ?thesis by (simp only: m if_not_P [OF n])
  qed
qed

lemma keyword_regexp_Null:
  assumes "kw \<noteq> []" and "word_char (last kw)"
    and "word_at (string source) (index source + length kw)"
  shows "Source_match (literal kw @ [Word_boundary]) source = Null"
proof (cases "index source \<le> length (string source)")
  case False
  then show ?thesis by (simp add: Source_match_def)
next
  case True
  let ?s = "string source" and ?i = "index source"
  have "match_from (literal kw @ [Word_boundary]) ?s [?i] = None"
  proof (cases "?i + length kw \<le> length ?s \<and> take (length kw) (drop ?i ?s) = kw")
    case False
    with match_from_literal [OF True, of kw "[Word_boundary]"] show ?thesis by simp
  next
    case k: True
    from assms(1) have pos: "0 < length kw" by simp
    from k have k1: "?i + length kw \<le> length ?s"
      and k2: "take (length kw) (drop ?i ?s) = kw" by simp_all
    have "take (length kw) (drop ?i ?s) ! (length kw - 1) = ?s ! (?i + (length kw - 1))"
      using pos k1 by simp
    with k2 have "kw ! (length kw - 1) = ?s ! (?i + (length kw - 1))" by simp
    moreover from pos have "?i + length kw - 1 = ?i + (length kw - 1)" by linarith
    ultimately have "?s ! (?i + length kw - 1) = last kw"
      using assms(1) by (simp add: last_conv_nth)
    moreover from k1 pos have "?i + length kw - 1 < length ?s" by linarith
    ultimately have "word_at ?s (?i + length kw - 1)"
      using assms(2) by (simp add: word_at_def)
    with assms(3) pos have "match_from [Word_boundary] ?s [?i + length kw] = None"
      by simp
    with match_from_literal [OF True, of kw "[Word_boundary]"] k show ?thesis by simp
  qed
  then show ?thesis by (simp add: Source_match_def)
qed

lemma keyword_token_Null:
  assumes "kw \<noteq> []" and "word_char (last kw)"
    and "word_at (string source) (index source + length kw)"
  shows "token (literal kw @ [Word_boundary]) source = Some Null"
  using keyword_regexp_Null [OF assms]
  by (simp add: token_def Parser_bind_def Parser_regexp_def)

lemma ignored_returns:
  assumes "index source \<le> length (string source)"
  shows "\<exists>vs rest. ignored source = Some (ParseResult vs rest)"
proof -
  have "consumes_below (Suc (remaining source)) (Parser_or whitespace comments)"
    by (simp add: whitespace_def comments_def literal_def consumes_below_or
          consumes_below_regexp)
  from zeroOrMore_below [OF this assms] show ?thesis
    by (auto simp: ignored_def)
qed

lemma ASSIGN_regexp:
  "Source_match (literal ''='' @ [Not_followed_by (\<lambda>c. c = CHR ''='' \<or> c = CHR ''!'')]) source =
     (if char_at (string source) (index source) CHR ''='' \<and>
         \<not> char_at (string source) (index source + 1) CHR ''='' \<and>
         \<not> char_at (string source) (index source + 1) CHR ''!''
      then ParseResult ''='' \<lparr>string = string source, index = index source + 1\<rparr>
      else Null)"
  by (auto simp: Source_match_def literal_def char_at_def Let_def take_Suc_conv_app_nth
        Cons_nth_drop_Suc [symmetric] split: option.splits)

lemma ASSIGN_token:
  "if char_at (string source) (index source) CHR ''='' \<and>
      \<not> char_at (string source) (index source + 1) CHR ''='' \<and>
      \<not> char_at (string source) (index source + 1) CHR ''!''
   then (\<exists>rest. ASSIGN source = Some (ParseResult ''='' rest))
   else ASSIGN source = Some Null"
proof (cases "char_at (string source) (index source) CHR ''='' \<and>
      \<not> char_at (string source) (index source + 1) CHR ''='' \<and>
      \<not> char_at (string source) (index source + 1) CHR ''!''")
  case False
  have m: "Source_match
      (literal ''='' @ [Not_followed_by (\<lambda>c. c = CHR ''='' \<or> c = CHR ''!'')]) source = Null"
    unfolding ASSIGN_regexp by (rule if_not_P [OF False])
  show ?thesis
    unfolding if_not_P [OF False]
    by (simp add: ASSIGN_def token_def Parser_bind_def Parser_regexp_def m)
next
  case True
  let ?rest = "\<lparr>string = string source, index = index source + 1\<rparr>"
  have m: "Source_match
      (literal ''='' @ [Not_followed_by (\<lambda>c. c = CHR ''='' \<or> c = CHR ''!'')]) source =
      ParseResult ''='' ?rest"
    unfolding ASSIGN_regexp by (rule if_P [OF True])
  from True have "index ?rest \<le> length (string ?rest)" by (simp add: char_at_def)
  from ignored_returns [OF this] obtain vs rest where "ignored ?rest = Some (ParseResult vs rest)"
    by blast
  then show ?thesis
    unfolding if_P [OF True]
    by (simp add: ASSIGN_def token_def Parser_bind_def Parser_regexp_def Parser_and_def
          Parser_constant_def m)
qed


lemma assignment_not_before_equal:
  assumes "ID source = Some (ParseResult name rest)"
    and "char_at (string rest) (index rest + 1) CHR ''=''"
  shows "assignmentStatement E source = Some Null"
proof -
  from ASSIGN_token [of rest] assms(2) have "ASSIGN rest = Some Null"
    by (simp split: if_splits)
  with assms(1) show ?thesis
    by (simp add: assignmentStatement_def Parser_bind_def Parser_and_def)
qed

lemma keyword_tokens_Null:
  assumes "(K, kw) \<in> set keyword_tokens"
    and "word_at (string source) (index source + length kw)"
  shows "K source = Some Null"
proof -
  from assms(1) have "K = token (literal kw @ [Word_boundary]) \<and> kw \<noteq> [] \<and> word_char (last kw)"
    by (auto simp: keyword_tokens_def FUNCTION_def IF_def ELSE_def RETURN_def VAR_def WHILE_def
          word_char_def letter_def)
  with keyword_token_Null [OF _ _ assms(2)] show ?thesis by simp
qed

text \<open>
  \<^bold>\<open>C10.\<close> A keyword token returns \<^verbatim>\<open>null\<close> wherever a letter, a digit or an underscore
  stands right after the place of the keyword. The token \<^verbatim>\<open>ASSIGN\<close> matches exactly where
  a \<^verbatim>\<open>=\<close> stands that is followed neither by \<^verbatim>\<open>=\<close> nor by \<^verbatim>\<open>!\<close>; so
  \<^verbatim>\<open>assignmentStatement\<close> returns \<^verbatim>\<open>null\<close> when the identifier is followed by a character
  and then \<^verbatim>\<open>=\<close>. However often the grammar is unrolled, \<^verbatim>\<open>x == y;\<close> is not an assignment
  and parses as the statement \<open>Equal (Id x) (Id y)\<close>, \<^verbatim>\<open>iffy;\<close> is not an \<^verbatim>\<open>if\<close> and
  parses as the identifier \<open>iffy\<close>, and the function with these two statements parses
  to completion.
\<close>

theorem tokens_enforce_boundaries:
  "((K, kw) \<in> set keyword_tokens \<and> word_at (string source) (index source + length kw) \<longrightarrow>
      K source = Some Null) \<and>
   (if char_at (string source) (index source) CHR ''='' \<and>
       \<not> char_at (string source) (index source + 1) CHR ''='' \<and>
       \<not> char_at (string source) (index source + 1) CHR ''!''
    then (\<exists>rest. ASSIGN source = Some (ParseResult ''='' rest))
    else ASSIGN source = Some Null) \<and>
   (ID source = Some (ParseResult name rest) \<and>
    char_at (string rest) (index rest + 1) CHR ''='' \<longrightarrow>
      assignmentStatement E source = Some Null) \<and>
   statement (Suc n) \<lparr>string = ''x == y;'', index = 0\<rparr> =
     Some (ParseResult (Equal () (Id_node () ''x'') (Id_node () ''y''))
            \<lparr>string = ''x == y;'', index = 7\<rparr>) \<and>
   assignmentStatement (expression (Suc n)) \<lparr>string = ''x == y;'', index = 0\<rparr> = Some Null \<and>
   statement (Suc n) \<lparr>string = ''iffy;'', index = 0\<rparr> =
     Some (ParseResult (Id_node () ''iffy'') \<lparr>string = ''iffy;'', index = 5\<rparr>) \<and>
   IF \<lparr>string = ''iffy;'', index = 0\<rparr> = Some Null \<and>
   parseStringToCompletion (parser (Suc n)) ''function f() { x == y; iffy; }'' =
     Some (Inr (Module () [Function () ''f'' []
       (Block () [Equal () (Id_node () ''x'') (Id_node () ''y''), Id_node () ''iffy''])]))"
proof (intro conjI impI)
  assume "(K, kw) \<in> set keyword_tokens \<and> word_at (string source) (index source + length kw)"
  then show "K source = Some Null" using keyword_tokens_Null by blast
next
  show "if char_at (string source) (index source) CHR ''='' \<and>
       \<not> char_at (string source) (index source + 1) CHR ''='' \<and>
       \<not> char_at (string source) (index source + 1) CHR ''!''
    then (\<exists>rest. ASSIGN source = Some (ParseResult ''='' rest))
    else ASSIGN source = Some Null"
    by (rule ASSIGN_token)
next
  assume "ID source = Some (ParseResult name rest) \<and>
    char_at (string rest) (index rest + 1) CHR ''=''"
  then show "assignmentStatement E source = Some Null"
    using assignment_not_before_equal by blast
qed (simp_all add: parser_eval parseStringToCompletion_def)

theorem tokens_enforce_boundaries_witness:
  "VAR \<lparr>string = ''variable'', index = 0\<rparr> = Some Null \<and>
   ID \<lparr>string = ''x == y;'', index = 0\<rparr> =
     Some (ParseResult ''x'' \<lparr>string = ''x == y;'', index = 2\<rparr>) \<and>
   assignmentStatement (expression 1) \<lparr>string = ''x == y;'', index = 0\<rparr> = Some Null \<and>
   statement 1 \<lparr>string = ''x == y;'', index = 0\<rparr> =
     Some (ParseResult (Equal () (Id_node () ''x'') (Id_node () ''y''))
            \<lparr>string = ''x == y;'', index = 7\<rparr>)"
proof -
  have id: "ID \<lparr>string = ''x == y;'', index = 0\<rparr> =
      Some (ParseResult ''x'' \<lparr>string = ''x == y;'', index = 2\<rparr>)"
    by (simp add: parser_eval)
  have kw: "(VAR, ''var'') \<in> set keyword_tokens" by (simp add: keyword_tokens_def)
  have w: "word_at (string \<lparr>string = ''variable'', index = 0\<rparr>)
      (index \<lparr>string = ''variable'', index = 0\<rparr> + length ''var'')"
    by (simp add: word_at_def word_char_def letter_def)
  have eq: "char_at ''x == y;'' 3 CHR ''=''" by (simp add: char_at_def)
  from tokens_enforce_boundaries
    [of VAR "''var''" "\<lparr>string = ''variable'', index = 0\<rparr>" "''x''" "\<lparr>string = ''x'', index = 0\<rparr>"
       "expression 1" 0] kw w
  have 1: "VAR \<lparr>string = ''variable'', index = 0\<rparr> = Some Null" by blast
  from tokens_enforce_boundaries
    [of IF "''if''" "\<lparr>string = ''x == y;'', index = 0\<rparr>" "''x''"
       "\<lparr>string = ''x == y;'', index = 2\<rparr>" "expression 1" 0] id eq
  have 2: "assignmentStatement (expression 1) \<lparr>string = ''x == y;'', index = 0\<rparr> = Some Null"
    and 3: "statement 1 \<lparr>string = ''x == y;'', index = 0\<rparr> =
      Some (ParseResult (Equal () (Id_node () ''x'') (Id_node () ''y''))
             \<lparr>string = ''x == y;'', index = 7\<rparr>)"
    by simp_all
  from 1 id 2 3 show ?thesis by simp
qed

end
